theory Spec2Isabelle
  imports Main "HOL-Library.Word"
begin

section \<open>UART driver-session component (os/src/drivers/uart/uart_component.h)\<close>

text \<open>
  The component sits between one UART driver and its clients. Bytes are \<open>8 word\<close>
  (\<open>unsigned char\<close>), \<open>unsigned\<close> is \<open>32 word\<close>, and \<open>Genode::size_t\<close> is
  \<open>nat\<close>: the only arithmetic on a \<open>size_t\<close> is a counter bounded by the clamp,
  so no wrap-around can occur there.
\<close>

subsection \<open>Exceptions and faults\<close>

text \<open>
  \<open>Nonexistent_attribute\<close>, \<open>No_policy_defined\<close> and \<open>Unavailable\<close> are the C++
  exceptions of the source. \<open>Char_not_available\<close> marks a call of \<open>get_char\<close> made
  while the driver has no character: the point where the driver's precondition is broken.
\<close>

datatype exn = Char_not_available | Nonexistent_attribute | No_policy_defined | Unavailable

subsection \<open>The driver\<close>

text \<open>
  Modelled from the spec: the \<open>Uart::Driver\<close> interface (\<open>uart_driver.h\<close> is not part
  of the sources). The driver offers \<open>char_avail\<close> (non-blocking), \<open>get_char\<close>
  (precondition: a character is available), \<open>put_char\<close> and \<open>baud_rate\<close>.

  The receive line is the list \<open>rx\<close> of what the driver will observe, one entry per
  observation: \<open>Some c\<close> is a character waiting to be fetched, \<open>None\<close> is one poll
  at which nothing is there. A poll that finds nothing uses up its \<open>None\<close>; a poll that
  finds a character leaves it for \<open>get_char\<close>. After the end of the list no character
  arrives any more. \<open>tx\<close> is what has been written to the line, oldest first.
\<close>

record driver =
  rx :: "8 word option list"
  tx :: "8 word list"
  baud :: nat

definition char_avail :: "driver \<Rightarrow> bool \<times> driver" where
  "char_avail d =
     (case rx d of
        [] \<Rightarrow> (False, d)
      | None # xs \<Rightarrow> (False, d\<lparr>rx := xs\<rparr>)
      | Some c # xs \<Rightarrow> (True, d))"

definition get_char :: "driver \<Rightarrow> exn + (8 word \<times> driver)" where
  "get_char d =
     (case rx d of
        Some c # xs \<Rightarrow> Inr (c, d\<lparr>rx := xs\<rparr>)
      | _ \<Rightarrow> Inl Char_not_available)"

definition put_char :: "8 word \<Rightarrow> driver \<Rightarrow> driver" where
  "put_char c d = d\<lparr>tx := tx d @ [c]\<rparr>"

definition driver_baud_rate :: "nat \<Rightarrow> driver \<Rightarrow> driver" where
  "driver_baud_rate bits_per_second d = d\<lparr>baud := bits_per_second\<rparr>"

subsection \<open>Signals\<close>

text \<open>
  Modelled from the spec: a notification target (\<open>Signal_context_capability\<close>, declared
  outside the sources) is an opaque handle that may be absent; \<open>valid\<close> tells the two
  apart. \<open>submit\<close> stands for \<open>Signal_transmitter(sigh).submit()\<close>: its value is the
  list of notifications sent by the call.
\<close>

datatype signal_context_capability = Invalid_capability | Capability nat

fun valid :: "signal_context_capability \<Rightarrow> bool" where
  "valid Invalid_capability = False"
| "valid (Capability n) = True"

definition submit :: "signal_context_capability \<Rightarrow> signal_context_capability list" where
  "submit sigh = [sigh]"

subsection \<open>Polling and number parsing\<close>

text \<open>
  \<open>_poll_char\<close>: \<open>while (!_driver.char_avail()); return _driver.get_char();\<close>
  The loop has no bound, so the function is partial: \<open>None\<close> means it never returns.
\<close>

partial_function (option) poll_char :: "driver \<Rightarrow> (exn + (8 word \<times> driver)) option" where
  "poll_char d =
     (case char_avail d of
        (a, d') \<Rightarrow> if \<not> a then poll_char d' else Some (get_char d'))"

text \<open>\<open>_put_string\<close>: writes the characters of a C string up to its terminating zero.\<close>

fun put_string :: "8 word list \<Rightarrow> driver \<Rightarrow> driver" where
  "put_string [] d = d"
| "put_string (c # s) d = (if c = 0 then d else put_string s (put_char c d))"

text \<open>
  Modelled from the spec: \<open>is_digit\<close> and \<open>digit\<close> of \<open>util/string.h\<close> (not part of
  the sources), in their decimal form: a digit is one of \<open>'0'\<close> .. \<open>'9'\<close>, and its value
  is its distance from \<open>'0'\<close>.
\<close>

definition is_digit :: "8 word \<Rightarrow> bool" where
  "is_digit c \<longleftrightarrow> 0x30 \<le> c \<and> c \<le> 0x39"

definition digit :: "8 word \<Rightarrow> int" where
  "digit c = (if is_digit c then uint c - 0x30 else - 1)"

text \<open>
  \<open>_read_number\<close>: \<open>result = 0\<close>, then the \<open>for (;;)\<close> loop, which returns the first
  character that is not a digit. \<open>result\<close> is an \<open>unsigned\<close> and wraps around.
\<close>

partial_function (option) read_number_loop ::
  "32 word \<Rightarrow> driver \<Rightarrow> (exn + (8 word \<times> 32 word \<times> driver)) option" where
  "read_number_loop result d =
     (case poll_char d of
        None \<Rightarrow> None
      | Some (Inl e) \<Rightarrow> Some (Inl e)
      | Some (Inr (c, d')) \<Rightarrow>
          if \<not> is_digit c then Some (Inr (c, result, d'))
          else read_number_loop (result * 10 + word_of_int (digit c)) d')"

definition read_number :: "driver \<Rightarrow> (exn + (8 word \<times> 32 word \<times> driver)) option" where
  "read_number d = read_number_loop 0 d"

subsection \<open>Size detection\<close>

datatype term_size = Size (columns: "32 word") (lines: "32 word")

text \<open>The flush loop of \<open>_detect_size\<close>: \<open>for (; _driver.char_avail(); _driver.get_char());\<close>\<close>

partial_function (option) flush :: "driver \<Rightarrow> (exn + driver) option" where
  "flush d =
     (case char_avail d of
        (a, d') \<Rightarrow>
          if a then
            (case get_char d' of
               Inl e \<Rightarrow> Some (Inl e)
             | Inr (c, d'') \<Rightarrow> flush d'')
          else Some (Inr d'))"

text \<open>The two strings sent: \<open>"\033[1;199r\033[199;255H"\<close> and \<open>"\033[6n"\<close>.\<close>

definition set_cursor_string :: "8 word list" where
  "set_cursor_string =
     [0x1B, 0x5B, 0x31, 0x3B, 0x31, 0x39, 0x39, 0x72,
      0x1B, 0x5B, 0x31, 0x39, 0x39, 0x3B, 0x32, 0x35, 0x35, 0x48]"

definition request_cursor_string :: "8 word list" where
  "request_cursor_string = [0x1B, 0x5B, 0x36, 0x6E]"

text \<open>
  \<open>_detect_size\<close>. The condition is a chain of \<open>&&\<close>: each read happens only if the
  comparisons before it succeeded. \<open>27\<close> is ESC, \<open>0x5B\<close> is \<open>'['\<close>, \<open>0x3B\<close> is \<open>';'\<close>
  and \<open>0x52\<close> is \<open>'R'\<close>.
\<close>

definition detect_size :: "driver \<Rightarrow> (exn + (term_size \<times> driver)) option" where
  "detect_size d =
     (let d1 = put_string set_cursor_string d in
      case flush d1 of
        None \<Rightarrow> None
      | Some (Inl e) \<Rightarrow> Some (Inl e)
      | Some (Inr d2) \<Rightarrow>
          let d3 = put_string request_cursor_string d2 in
          (case poll_char d3 of
             None \<Rightarrow> None
           | Some (Inl e) \<Rightarrow> Some (Inl e)
           | Some (Inr (c1, d4)) \<Rightarrow>
               if c1 \<noteq> 27 then Some (Inr (Size 0 0, d4))
               else
                 (case poll_char d4 of
                    None \<Rightarrow> None
                  | Some (Inl e) \<Rightarrow> Some (Inl e)
                  | Some (Inr (c2, d5)) \<Rightarrow>
                      if c2 \<noteq> 0x5B then Some (Inr (Size 0 0, d5))
                      else
                        (case read_number d5 of
                           None \<Rightarrow> None
                         | Some (Inl e) \<Rightarrow> Some (Inl e)
                         | Some (Inr (c3, height, d6)) \<Rightarrow>
                             if c3 \<noteq> 0x3B then Some (Inr (Size 0 0, d6))
                             else
                               (case read_number d6 of
                                  None \<Rightarrow> None
                                | Some (Inl e) \<Rightarrow> Some (Inl e)
                                | Some (Inr (c4, width, d7)) \<Rightarrow>
                                    if c4 = 0x52 then Some (Inr (Size width height, d7))
                                    else Some (Inr (Size 0 0, d7)))))))"

subsection \<open>The session\<close>

text \<open>
  \<open>Session_component\<close>: the I/O buffer (an \<open>Attached_ram_dataspace\<close>, here its bytes),
  the target of the character-available callback, the driver and the size.
\<close>

record session =
  m_io_buffer :: "8 word list"
  m_sigh :: signal_context_capability
  m_driver :: driver
  m_size :: term_size

definition IO_BUFFER_SIZE :: nat where
  "IO_BUFFER_SIZE = 4096"

text \<open>\<open>Char_avail_callback::operator ()\<close>: submits only to a valid target.\<close>

definition char_avail_callback :: "session \<Rightarrow> signal_context_capability list" where
  "char_avail_callback s = (if valid (m_sigh s) then submit (m_sigh s) else [])"

definition baud_rate :: "nat \<Rightarrow> session \<Rightarrow> session" where
  "baud_rate bits_per_second s = s\<lparr>m_driver := driver_baud_rate bits_per_second (m_driver s)\<rparr>"

definition session_size :: "session \<Rightarrow> term_size" where
  "session_size s = m_size s"

definition avail :: "session \<Rightarrow> bool \<times> session" where
  "avail s = (case char_avail (m_driver s) of (a, d') \<Rightarrow> (a, s\<lparr>m_driver := d'\<rparr>))"

text \<open>
  \<open>_read\<close>: \<open>while ((n < sz) && _driver.char_avail()) io_buf[n++] = _driver.get_char();\<close>
  The driver is polled only while \<open>n < sz\<close>; \<open>sz\<close> is at most the size of the buffer,
  so the store is always in range.
\<close>

function read_loop :: "nat \<Rightarrow> nat \<Rightarrow> session \<Rightarrow> exn + (nat \<times> session)" where
  "read_loop sz n s =
     (if n < sz then
        (case char_avail (m_driver s) of
           (a, d') \<Rightarrow>
             if a then
               (case get_char d' of
                  Inl e \<Rightarrow> Inl e
                | Inr (c, d'') \<Rightarrow>
                    read_loop sz (Suc n)
                      (s\<lparr>m_io_buffer := (m_io_buffer s)[n := c], m_driver := d''\<rparr>))
             else Inr (n, s\<lparr>m_driver := d'\<rparr>))
      else Inr (n, s))"
  by pat_completeness auto
termination
  by (relation "measure (\<lambda>(sz, n, s). sz - n)") auto

declare read_loop.simps [simp del]

definition session_read :: "nat \<Rightarrow> session \<Rightarrow> exn + (nat \<times> session)" where
  "session_read dst_len s = read_loop (min dst_len (length (m_io_buffer s))) 0 s"

text \<open>
  \<open>_write\<close>: \<open>for (i = 0; i < num_bytes; i++) _driver.put_char(io_buf[i]);\<close> after
  \<open>num_bytes\<close> has been clamped to the size of the buffer.
\<close>

function write_loop :: "nat \<Rightarrow> nat \<Rightarrow> session \<Rightarrow> session" where
  "write_loop num_bytes i s =
     (if i < num_bytes then
        write_loop num_bytes (Suc i) (s\<lparr>m_driver := put_char (m_io_buffer s ! i) (m_driver s)\<rparr>)
      else s)"
  by pat_completeness auto
termination
  by (relation "measure (\<lambda>(num_bytes, i, s). num_bytes - i)") auto

declare write_loop.simps [simp del]

definition session_write :: "nat \<Rightarrow> session \<Rightarrow> session" where
  "session_write num_bytes s = write_loop (min num_bytes (length (m_io_buffer s))) 0 s"

text \<open>The two signal-handler operations return the notifications they sent.\<close>

definition connected_sigh ::
  "signal_context_capability \<Rightarrow> session \<Rightarrow> signal_context_capability list \<times> session" where
  "connected_sigh sigh s = (submit sigh, s)"

definition read_avail_sigh ::
  "signal_context_capability \<Rightarrow> session \<Rightarrow> signal_context_capability list \<times> session" where
  "read_avail_sigh sigh s =
     (let s1 = s\<lparr>m_sigh := sigh\<rparr> in
      case char_avail (m_driver s1) of
        (a, d') \<Rightarrow>
          let s2 = s1\<lparr>m_driver := d'\<rparr> in
          if a then (char_avail_callback s2, s2) else ([], s2))"

subsection \<open>Construction\<close>

text \<open>
  Modelled from the spec: what lies outside the sources and the constructor and the root
  use. \<open>session_label\<close> extracts the label from the session arguments, \<open>session_policy\<close>
  resolves a label to the attributes of its policy rule (\<open>None\<close>: no rule matches),
  \<open>attr_value\<close> is \<open>Attribute::value(unsigned *)\<close> (the attribute's text and the old
  content of the variable give the new content), and \<open>create\<close> is
  \<open>Driver_factory::create\<close>. \<open>resources\<close> records what has been allocated: the sizes
  of the RAM dataspaces and the (index, baudrate) pairs of the drivers created.
\<close>

type_synonym xml_node = "(string \<times> string) list"

record environment =
  session_label :: "string \<Rightarrow> string"
  session_policy :: "string \<Rightarrow> xml_node option"
  attr_value :: "string \<Rightarrow> 32 word \<Rightarrow> 32 word"
  create :: "32 word \<Rightarrow> 32 word \<Rightarrow> driver"

record resources =
  ram_dataspaces :: "nat list"
  drivers :: "(32 word \<times> 32 word) list"

definition attribute :: "xml_node \<Rightarrow> string \<Rightarrow> exn + string" where
  "attribute node name =
     (case map_of node name of
        None \<Rightarrow> Inl Nonexistent_attribute
      | Some v \<Rightarrow> Inr v)"

text \<open>
  The constructor: the buffer of \<open>IO_BUFFER_SIZE\<close> bytes, the driver from the factory,
  and the size, detected only if \<open>detect\<close> is set. It returns only if the detection does.
  The fresh buffer is taken to be zero-filled; no property below depends on its content.
  The callback's target starts out invalid, as a default-constructed capability is.
\<close>

definition Session_component ::
  "environment \<Rightarrow> 32 word \<Rightarrow> 32 word \<Rightarrow> bool \<Rightarrow> resources \<Rightarrow> ((exn + session) \<times> resources) option"
  where
  "Session_component env index baudrate detect r =
     (let r1 = r\<lparr>ram_dataspaces := ram_dataspaces r @ [IO_BUFFER_SIZE]\<rparr>;
          r2 = r1\<lparr>drivers := drivers r1 @ [(index, baudrate)]\<rparr>;
          d = create env index baudrate
      in if detect then
           (case detect_size d of
              None \<Rightarrow> None
            | Some (Inl e) \<Rightarrow> Some (Inl e, r2)
            | Some (Inr (sz, d')) \<Rightarrow>
                Some (Inr \<lparr>m_io_buffer = replicate IO_BUFFER_SIZE 0, m_sigh = Invalid_capability,
                           m_driver = d', m_size = sz\<rparr>, r2))
         else
           Some (Inr \<lparr>m_io_buffer = replicate IO_BUFFER_SIZE 0, m_sigh = Invalid_capability,
                      m_driver = d, m_size = Size 0 0\<rparr>, r2))"

text \<open>
  \<open>Root::_create_session\<close>. \<open>create_session_try\<close> is the body of the outer \<open>try\<close>;
  the two inner \<open>try\<close> blocks swallow \<open>Nonexistent_attribute\<close> for the optional
  attributes. \<open>create_session\<close> adds the two \<open>catch\<close> clauses.
\<close>

definition create_session_try ::
  "environment \<Rightarrow> string \<Rightarrow> resources \<Rightarrow> ((exn + session) \<times> resources) option" where
  "create_session_try env args r =
     (let label = session_label env args in
      case session_policy env label of
        None \<Rightarrow> Some (Inl No_policy_defined, r)
      | Some policy \<Rightarrow>
          (case attribute policy ''uart'' of
             Inl e \<Rightarrow> Some (Inl e, r)
           | Inr u \<Rightarrow>
               let index = attr_value env u 0;
                   baudrate = (case attribute policy ''baudrate'' of
                                 Inl e \<Rightarrow> 0
                               | Inr b \<Rightarrow> attr_value env b 0);
                   detect = (case attribute policy ''detect_size'' of
                               Inl e \<Rightarrow> False
                             | Inr v \<Rightarrow> v = ''yes'')
               in Session_component env index baudrate detect r))"

definition create_session ::
  "environment \<Rightarrow> string \<Rightarrow> resources \<Rightarrow> ((exn + session) \<times> resources) option" where
  "create_session env args r =
     (case create_session_try env args r of
        None \<Rightarrow> None
      | Some (Inl Nonexistent_attribute, r') \<Rightarrow> Some (Inl Unavailable, r')
      | Some (Inl No_policy_defined, r') \<Rightarrow> Some (Inl Unavailable, r')
      | Some (res, r') \<Rightarrow> Some (res, r'))"

subsection \<open>Notions used to state the properties\<close>

text \<open>
  \<open>delivered xs\<close> is the sequence of characters in the observations \<open>xs\<close>;
  \<open>pending xs\<close> is the characters available now, those before the first poll that
  finds nothing; \<open>after_flush xs\<close> is what is left of the line once the flush loop of
  \<open>_detect_size\<close> has run: the characters before the first empty poll are discarded
  together with that poll. \<open>decimal ds\<close> is the value of the digit string \<open>ds\<close>
  as an \<open>unsigned\<close>.
\<close>

fun delivered :: "8 word option list \<Rightarrow> 8 word list" where
  "delivered [] = []"
| "delivered (None # xs) = delivered xs"
| "delivered (Some c # xs) = c # delivered xs"

definition after_flush :: "8 word option list \<Rightarrow> 8 word option list" where
  "after_flush xs = drop 1 (dropWhile (\<lambda>x. x \<noteq> None) xs)"

definition decimal :: "8 word list \<Rightarrow> 32 word" where
  "decimal ds = foldl (\<lambda>a x. a * 10 + word_of_int (digit x)) 0 ds"

fun pending :: "8 word option list \<Rightarrow> 8 word list" where
  "pending [] = []"
| "pending (None # xs) = []"
| "pending (Some c # xs) = c # pending xs"

text \<open>
  The cursor report in the words of the specification: ESC, \<open>'['\<close>, a decimal number
  (the height), \<open>';'\<close>, a decimal number (the width), \<open>'R'\<close>. A number ends at the
  first character that is not a digit. The value is the size read, \<open>Size 0 0\<close> on a
  mismatch, and \<open>None\<close> while the characters end before either is reached.
\<close>

definition cursor_report :: "8 word list \<Rightarrow> term_size option" where
  "cursor_report cs =
     (case cs of
        [] \<Rightarrow> None
      | c1 # cs1 \<Rightarrow>
          if c1 \<noteq> 27 then Some (Size 0 0)
          else
            (case cs1 of
               [] \<Rightarrow> None
             | c2 # cs2 \<Rightarrow>
                 if c2 \<noteq> 0x5B then Some (Size 0 0)
                 else
                   (case dropWhile is_digit cs2 of
                      [] \<Rightarrow> None
                    | c3 # cs3 \<Rightarrow>
                        if c3 \<noteq> 0x3B then Some (Size 0 0)
                        else
                          (case dropWhile is_digit cs3 of
                             [] \<Rightarrow> None
                           | c4 # cs4 \<Rightarrow>
                               if c4 = 0x52
                               then Some (Size (decimal (takeWhile is_digit cs3))
                                               (decimal (takeWhile is_digit cs2)))
                               else Some (Size 0 0)))))"

text \<open>
  \<open>report_decided cs\<close>: the characters \<open>cs\<close> are enough to decide the grammar of the
  cursor report. Either they depart from it (a first character that is not ESC, a second
  that is not \<open>'['\<close>, a height ended by something other than \<open>';'\<close>), or they contain
  the character that ends the width: the report matches if that character is \<open>'R'\<close>
  and does not otherwise.
\<close>

definition report_decided :: "8 word list \<Rightarrow> bool" where
  "report_decided cs \<longleftrightarrow>
     (\<exists>c rest. cs = c # rest \<and> c \<noteq> 0x1B)
   \<or> (\<exists>c rest. cs = 0x1B # c # rest \<and> c \<noteq> 0x5B)
   \<or> (\<exists>hs c rest. cs = 0x1B # 0x5B # hs @ c # rest \<and> list_all is_digit hs
          \<and> \<not> is_digit c \<and> c \<noteq> 0x3B)
   \<or> (\<exists>hs ws c rest. cs = 0x1B # 0x5B # hs @ 0x3B # ws @ c # rest \<and> list_all is_digit hs
          \<and> list_all is_digit ws \<and> \<not> is_digit c)"

section \<open>Properties\<close>

subsection \<open>Polling, reading numbers, flushing\<close>

lemma poll_char_SomeD:
  assumes "poll_char d = Some y"
  shows "rx d \<noteq> []"
  using assms
proof (rule poll_char.raw_induct [rotated 1, where P = "\<lambda>d y. rx d \<noteq> []"])
  fix f d y
  assume "\<And>x y. f x = Some y \<Longrightarrow> rx x \<noteq> []"
    and "(case char_avail d of (a, d') \<Rightarrow> if \<not> a then f d' else Some (get_char d')) = Some y"
  then show "rx d \<noteq> []"
    by (auto simp: char_avail_def split: list.splits option.splits)
qed

lemma poll_char_Nil: "rx d = [] \<Longrightarrow> poll_char d = None"
  using poll_char_SomeD [of d] by (cases "poll_char d") auto

lemma poll_char_None: "rx d = None # xs \<Longrightarrow> poll_char d = poll_char (d\<lparr>rx := xs\<rparr>)"
  by (subst poll_char.simps) (simp add: char_avail_def)

lemma poll_char_Some: "rx d = Some c # xs \<Longrightarrow> poll_char d = Some (Inr (c, d\<lparr>rx := xs\<rparr>))"
  by (subst poll_char.simps) (simp add: char_avail_def get_char_def)

lemma poll_char_delivered_Nil: "delivered (rx d) = [] \<Longrightarrow> poll_char d = None"
proof (induction "rx d" arbitrary: d)
  case Nil
  then show ?case by (simp add: poll_char_Nil)
next
  case (Cons x xs)
  from Cons.hyps(2) have e: "rx d = x # xs" by simp
  show ?case
  proof (cases x)
    case None
    with e Cons.prems have "delivered (rx (d\<lparr>rx := xs\<rparr>)) = []" by simp
    moreover have "xs = rx (d\<lparr>rx := xs\<rparr>)" by simp
    ultimately have "poll_char (d\<lparr>rx := xs\<rparr>) = None" by (rule Cons.hyps(1)[rotated])
    with e None show ?thesis by (simp add: poll_char_None)
  next
    case (Some c)
    with e Cons.prems show ?thesis by simp
  qed
qed

lemma poll_char_delivered_Cons:
  "delivered (rx d) = c # cs \<Longrightarrow>
     \<exists>d'. poll_char d = Some (Inr (c, d')) \<and> delivered (rx d') = cs \<and> tx d' = tx d \<and> baud d' = baud d"
proof (induction "rx d" arbitrary: d)
  case Nil
  then show ?case by simp
next
  case (Cons x xs)
  from Cons.hyps(2) have e: "rx d = x # xs" by simp
  show ?case
  proof (cases x)
    case None
    with e Cons.prems have "delivered (rx (d\<lparr>rx := xs\<rparr>)) = c # cs" by simp
    moreover have "xs = rx (d\<lparr>rx := xs\<rparr>)" by simp
    ultimately have "\<exists>d'. poll_char (d\<lparr>rx := xs\<rparr>) = Some (Inr (c, d')) \<and> delivered (rx d') = cs
        \<and> tx d' = tx (d\<lparr>rx := xs\<rparr>) \<and> baud d' = baud (d\<lparr>rx := xs\<rparr>)"
      by (rule Cons.hyps(1)[rotated])
    with e None show ?thesis by (simp add: poll_char_None)
  next
    case (Some a)
    with e Cons.prems have "a = c" "delivered xs = cs" by simp_all
    with e Some show ?thesis by (simp add: poll_char_Some)
  qed
qed

lemma read_number_loop_unfinished:
  "dropWhile is_digit (delivered (rx d)) = [] \<Longrightarrow> read_number_loop acc d = None"
proof (induction "delivered (rx d)" arbitrary: d acc)
  case Nil
  then have "poll_char d = None" by (simp add: poll_char_delivered_Nil)
  then show ?case by (subst read_number_loop.simps) simp
next
  case (Cons c cs)
  from Cons.hyps(2) have e: "delivered (rx d) = c # cs" by simp
  then obtain d' where p: "poll_char d = Some (Inr (c, d'))" and r: "delivered (rx d') = cs"
    using poll_char_delivered_Cons by blast
  from e Cons.prems have dg: "is_digit c" and rest: "dropWhile is_digit cs = []"
    by (auto split: if_splits)
  from r rest have "read_number_loop (acc * 10 + word_of_int (digit c)) d' = None"
    by (intro Cons.hyps(1)) simp_all
  with p dg show ?case by (subst read_number_loop.simps) simp
qed

lemma read_number_loop_stops:
  "dropWhile is_digit (delivered (rx d)) = c # rest \<Longrightarrow>
     \<exists>d'. read_number_loop acc d =
             Some (Inr (c, foldl (\<lambda>a x. a * 10 + word_of_int (digit x)) acc
                              (takeWhile is_digit (delivered (rx d))), d'))
          \<and> delivered (rx d') = rest \<and> tx d' = tx d \<and> baud d' = baud d"
proof (induction "delivered (rx d)" arbitrary: d acc)
  case Nil
  then show ?case by simp
next
  case (Cons x xs)
  from Cons.hyps(2) have e: "delivered (rx d) = x # xs" by simp
  then obtain d' where p: "poll_char d = Some (Inr (x, d'))" and r: "delivered (rx d') = xs"
    and t: "tx d' = tx d" "baud d' = baud d"
    using poll_char_delivered_Cons by blast
  show ?case
  proof (cases "is_digit x")
    case True
    with e Cons.prems have "dropWhile is_digit (delivered (rx d')) = c # rest"
      using r by simp
    with r have "\<exists>d''. read_number_loop (acc * 10 + word_of_int (digit x)) d' =
             Some (Inr (c, foldl (\<lambda>a x. a * 10 + word_of_int (digit x)) (acc * 10 + word_of_int (digit x))
                              (takeWhile is_digit (delivered (rx d'))), d''))
          \<and> delivered (rx d'') = rest \<and> tx d'' = tx d' \<and> baud d'' = baud d'"
      by (intro Cons.hyps(1)) simp_all
    with p True e r t show ?thesis by (subst read_number_loop.simps) simp
  next
    case False
    with e Cons.prems have "x = c" "xs = rest" by simp_all
    with p False e r t show ?thesis by (subst read_number_loop.simps) simp
  qed
qed

lemma flush_eq: "flush d = Some (Inr (d\<lparr>rx := after_flush (rx d)\<rparr>))"
proof (induction "rx d" arbitrary: d)
  case Nil
  then show ?case by (subst flush.simps) (simp add: char_avail_def after_flush_def)
next
  case (Cons x xs)
  from Cons.hyps(2) have e: "rx d = x # xs" by simp
  show ?case
  proof (cases x)
    case None
    with e show ?thesis by (subst flush.simps) (simp add: char_avail_def after_flush_def)
  next
    case (Some c)
    have "flush (d\<lparr>rx := xs\<rparr>) = Some (Inr (d\<lparr>rx := xs\<rparr>\<lparr>rx := after_flush (rx (d\<lparr>rx := xs\<rparr>))\<rparr>))"
      by (rule Cons.hyps(1)) simp
    with e Some show ?thesis
      by (subst flush.simps) (simp add: char_avail_def get_char_def after_flush_def)
  qed
qed

lemma put_string_rx: "rx (put_string s d) = rx d"
  by (induction s d rule: put_string.induct) (simp_all add: put_char_def)

lemma put_string_baud: "baud (put_string s d) = baud d"
  by (induction s d rule: put_string.induct) (simp_all add: put_char_def)

lemma put_string_tx: "tx (put_string s d) = tx d @ takeWhile (\<lambda>c. c \<noteq> 0) s"
  by (induction s d rule: put_string.induct) (simp_all add: put_char_def)

lemma read_number_unfinished:
  "dropWhile is_digit (delivered (rx d)) = [] \<Longrightarrow> read_number d = None"
  by (simp add: read_number_def read_number_loop_unfinished)

lemma read_number_stops:
  "dropWhile is_digit (delivered (rx d)) = c # rest \<Longrightarrow>
     \<exists>d'. read_number d = Some (Inr (c, decimal (takeWhile is_digit (delivered (rx d))), d'))
          \<and> delivered (rx d') = rest \<and> tx d' = tx d \<and> baud d' = baud d"
  unfolding read_number_def decimal_def by (rule read_number_loop_stops)

lemma strings_nonzero:
  "takeWhile (\<lambda>c. c \<noteq> 0) set_cursor_string = set_cursor_string"
  "takeWhile (\<lambda>c. c \<noteq> 0) request_cursor_string = request_cursor_string"
  by (simp_all add: set_cursor_string_def request_cursor_string_def)

lemma detect_size_cursor_report:
  "case cursor_report (delivered (after_flush (rx d))) of
     None \<Rightarrow> detect_size d = None
   | Some sz \<Rightarrow>
       (\<exists>d'. detect_size d = Some (Inr (sz, d'))
            \<and> tx d' = tx d @ set_cursor_string @ request_cursor_string \<and> baud d' = baud d)"
proof -
  define d3 where
    "d3 = put_string request_cursor_string ((put_string set_cursor_string d)\<lparr>rx := after_flush (rx d)\<rparr>)"
  have rx3: "rx d3 = after_flush (rx d)"
    by (simp add: d3_def put_string_rx)
  have tx3: "tx d3 = tx d @ set_cursor_string @ request_cursor_string"
    by (simp add: d3_def put_string_tx strings_nonzero)
  have baud3: "baud d3 = baud d"
    by (simp add: d3_def put_string_baud)
  have unf: "detect_size d =
    (case poll_char d3 of
       None \<Rightarrow> None
     | Some (Inl e) \<Rightarrow> Some (Inl e)
     | Some (Inr (c1, d4)) \<Rightarrow>
         if c1 \<noteq> 27 then Some (Inr (Size 0 0, d4))
         else
           (case poll_char d4 of
              None \<Rightarrow> None
            | Some (Inl e) \<Rightarrow> Some (Inl e)
            | Some (Inr (c2, d5)) \<Rightarrow>
                if c2 \<noteq> 0x5B then Some (Inr (Size 0 0, d5))
                else
                  (case read_number d5 of
                     None \<Rightarrow> None
                   | Some (Inl e) \<Rightarrow> Some (Inl e)
                   | Some (Inr (c3, height, d6)) \<Rightarrow>
                       if c3 \<noteq> 0x3B then Some (Inr (Size 0 0, d6))
                       else
                         (case read_number d6 of
                            None \<Rightarrow> None
                          | Some (Inl e) \<Rightarrow> Some (Inl e)
                          | Some (Inr (c4, width, d7)) \<Rightarrow>
                              if c4 = 0x52 then Some (Inr (Size width height, d7))
                              else Some (Inr (Size 0 0, d7))))))"
    by (simp add: detect_size_def flush_eq put_string_rx d3_def Let_def)
  show ?thesis
  proof (cases "delivered (rx d3)")
    case Nil
    then show ?thesis
      using rx3 by (simp add: unf cursor_report_def poll_char_delivered_Nil)
  next
    case (Cons c1 cs1)
    then obtain d4 where p1: "poll_char d3 = Some (Inr (c1, d4))" and r4: "delivered (rx d4) = cs1"
      and t4: "tx d4 = tx d3" "baud d4 = baud d3"
      using poll_char_delivered_Cons by blast
    show ?thesis
    proof (cases "c1 = 27")
      case False
      with Cons p1 t4 tx3 baud3 rx3 show ?thesis
        by (simp add: unf cursor_report_def)
    next
      case c1: True
      show ?thesis
      proof (cases cs1)
        case Nil
        with r4 have "poll_char d4 = None" by (simp add: poll_char_delivered_Nil)
        with Cons Nil c1 p1 rx3 show ?thesis
          by (simp add: unf cursor_report_def)
      next
        case cs1: (Cons c2 cs2)
        with r4 obtain d5 where p2: "poll_char d4 = Some (Inr (c2, d5))"
          and r5: "delivered (rx d5) = cs2" and t5: "tx d5 = tx d4" "baud d5 = baud d4"
          using poll_char_delivered_Cons by blast
        show ?thesis
        proof (cases "c2 = 0x5B")
          case False
          with Cons cs1 c1 p1 p2 t4 t5 tx3 baud3 rx3 show ?thesis
            by (simp add: unf cursor_report_def)
        next
          case c2: True
          show ?thesis
          proof (cases "dropWhile is_digit cs2")
            case Nil
            with r5 have "read_number d5 = None" by (simp add: read_number_unfinished)
            with Cons cs1 c1 c2 p1 p2 Nil rx3 show ?thesis
              by (simp add: unf cursor_report_def del: dropWhile_eq_Nil_conv)
          next
            case n1: (Cons c3 cs3)
            with r5 obtain d6 where p3: "read_number d5 = Some (Inr (c3, decimal (takeWhile is_digit cs2), d6))"
              and r6: "delivered (rx d6) = cs3" and t6: "tx d6 = tx d5" "baud d6 = baud d5"
              using read_number_stops [of d5 c3 cs3] by auto
            show ?thesis
            proof (cases "c3 = 0x3B")
              case False
              with Cons cs1 c1 c2 n1 p1 p2 p3 t4 t5 t6 tx3 baud3 rx3 show ?thesis
                by (simp add: unf cursor_report_def)
            next
              case c3: True
              show ?thesis
              proof (cases "dropWhile is_digit cs3")
                case Nil
                with r6 have "read_number d6 = None" by (simp add: read_number_unfinished)
                with Cons cs1 c1 c2 c3 n1 p1 p2 p3 Nil rx3 show ?thesis
                  by (simp add: unf cursor_report_def del: dropWhile_eq_Nil_conv)
              next
                case n2: (Cons c4 cs4)
                with r6 obtain d7 where
                  p4: "read_number d6 = Some (Inr (c4, decimal (takeWhile is_digit cs3), d7))"
                  and t7: "tx d7 = tx d6" "baud d7 = baud d6"
                  using read_number_stops [of d6 c4 cs4] by auto
                with Cons cs1 c1 c2 c3 n1 n2 p1 p2 p3 t4 t5 t6 tx3 baud3 rx3 show ?thesis
                  by (simp add: unf cursor_report_def)
              qed
            qed
          qed
        qed
      qed
    qed
  qed
qed

subsection \<open>Reading and writing through the I/O buffer\<close>

lemma write_loop_eq:
  "i \<le> num_bytes \<Longrightarrow> num_bytes \<le> length (m_io_buffer s) \<Longrightarrow>
   write_loop num_bytes i s =
     s\<lparr>m_driver := (m_driver s)\<lparr>tx := tx (m_driver s) @ take (num_bytes - i) (drop i (m_io_buffer s))\<rparr>\<rparr>"
proof (induction num_bytes i s rule: write_loop.induct)
  case (1 num_bytes i s)
  show ?case
  proof (cases "i < num_bytes")
    case True
    let ?s' = "s\<lparr>m_driver := put_char (m_io_buffer s ! i) (m_driver s)\<rparr>"
    from True "1.prems" have il: "i < length (m_io_buffer s)" by simp
    have step: "take (num_bytes - i) (drop i (m_io_buffer s)) =
                m_io_buffer s ! i # take (num_bytes - Suc i) (drop (Suc i) (m_io_buffer s))"
    proof -
      from True obtain k where k: "num_bytes - i = Suc k" by (cases "num_bytes - i") auto
      then have "num_bytes - Suc i = k" by simp
      with k il show ?thesis by (simp add: Cons_nth_drop_Suc [symmetric])
    qed
    have "write_loop num_bytes i s = write_loop num_bytes (Suc i) ?s'"
      using True by (subst write_loop.simps) simp
    also have "\<dots> = ?s'\<lparr>m_driver := (m_driver ?s')\<lparr>tx := tx (m_driver ?s') @
                 take (num_bytes - Suc i) (drop (Suc i) (m_io_buffer ?s'))\<rparr>\<rparr>"
      using True "1.prems" by (intro "1.IH") simp_all
    also have "\<dots> = s\<lparr>m_driver := (m_driver s)\<lparr>tx := tx (m_driver s) @
                 take (num_bytes - i) (drop i (m_io_buffer s))\<rparr>\<rparr>"
      by (simp add: step put_char_def)
    finally show ?thesis .
  next
    case False
    with "1.prems" have "i = num_bytes" by simp
    then show ?thesis by (subst write_loop.simps) simp
  qed
qed

lemma read_loop_eq:
  "n \<le> sz \<Longrightarrow> sz \<le> length (m_io_buffer s) \<Longrightarrow>
   read_loop sz n s =
     (let p = pending (rx (m_driver s)); k = min (sz - n) (length p) in
      Inr (n + k,
           s\<lparr>m_io_buffer := take n (m_io_buffer s) @ take k p @ drop (n + k) (m_io_buffer s),
             m_driver := (m_driver s)\<lparr>rx := drop (if length p < sz - n then Suc k else k)
                                                (rx (m_driver s))\<rparr>\<rparr>))"
proof (induction sz n s rule: read_loop.induct)
  case (1 sz n s)
  show ?case
  proof (cases "n < sz")
    case False
    with "1.prems" have "n = sz" by simp
    then show ?thesis by (subst read_loop.simps) simp
  next
    case True
    show ?thesis
    proof (cases "rx (m_driver s)")
      case Nil
      with True show ?thesis
        by (subst read_loop.simps) (simp add: char_avail_def)
    next
      case (Cons x xs)
      show ?thesis
      proof (cases x)
        case None
        with Cons True show ?thesis
          by (subst read_loop.simps) (simp add: char_avail_def)
      next
        case (Some c)
        let ?d'' = "(m_driver s)\<lparr>rx := xs\<rparr>"
        let ?s' = "s\<lparr>m_io_buffer := (m_io_buffer s)[n := c], m_driver := ?d''\<rparr>"
        from True "1.prems" have nl: "n < length (m_io_buffer s)" by simp
        have ca: "char_avail (m_driver s) = (True, m_driver s)"
          using Cons Some by (simp add: char_avail_def)
        have gc: "get_char (m_driver s) = Inr (c, ?d'')"
          using Cons Some by (simp add: get_char_def)
        have "read_loop sz n s = read_loop sz (Suc n) ?s'"
          using True ca gc by (subst read_loop.simps) simp
        also have "\<dots> =
          (let p = pending (rx (m_driver ?s')); k = min (sz - Suc n) (length p) in
           Inr (Suc n + k,
             ?s'\<lparr>m_io_buffer := take (Suc n) (m_io_buffer ?s') @ take k p @ drop (Suc n + k) (m_io_buffer ?s'),
               m_driver := (m_driver ?s')\<lparr>rx := drop (if length p < sz - Suc n then Suc k else k)
                                                (rx (m_driver ?s'))\<rparr>\<rparr>))"
          using True "1.prems" ca gc by (intro "1.IH") (simp_all)
        also have "\<dots> =
          (let p = pending (rx (m_driver s)); k = min (sz - n) (length p) in
           Inr (n + k,
             s\<lparr>m_io_buffer := take n (m_io_buffer s) @ take k p @ drop (n + k) (m_io_buffer s),
               m_driver := (m_driver s)\<lparr>rx := drop (if length p < sz - n then Suc k else k)
                                                (rx (m_driver s))\<rparr>\<rparr>))"
        proof -
          from True obtain j where j: "sz - n = Suc j" by (cases "sz - n") auto
          then have j': "sz - Suc n = j" by simp
          have tk: "take (Suc n) ((m_io_buffer s)[n := c]) = take n (m_io_buffer s) @ [c]"
            using nl by (simp add: take_Suc_conv_app_nth)
          show ?thesis
            using Cons Some nl by (simp add: Let_def j j' tk)
        qed
        finally show ?thesis .
      qed
    qed
  qed
qed

lemma delivered_pending:
  "k \<le> length (pending xs) \<Longrightarrow> delivered xs = take k (pending xs) @ delivered (drop k xs)"
proof (induction xs arbitrary: k)
  case Nil
  then show ?case by simp
next
  case (Cons x xs)
  then show ?case by (cases x; cases k) simp_all
qed

lemma delivered_drop_Suc_pending:
  "delivered (drop (Suc (length (pending xs))) xs) = delivered (drop (length (pending xs)) xs)"
proof (induction xs)
  case Nil
  then show ?case by simp
next
  case (Cons x xs)
  then show ?case by (cases x) simp_all
qed

lemma write_loop_clamped:
  assumes len: "length (m_io_buffer s) = 4096"
  shows "write_loop (min num_bytes 4096) 0 s =
          s\<lparr>m_driver := (m_driver s)\<lparr>tx := tx (m_driver s) @
              take (min num_bytes 4096 - 0) (drop 0 (m_io_buffer s))\<rparr>\<rparr>"
proof (rule write_loop_eq)
  show "0 \<le> min num_bytes 4096" by simp
  show "min num_bytes 4096 \<le> length (m_io_buffer s)" unfolding len by (rule min.cobounded2)
qed

text \<open>
  Claim C2. With the buffer of \<open>IO_BUFFER_SIZE\<close> bytes that the constructor allocates,
  \<open>_read\<close> always returns a count \<open>n\<close>, and \<open>n\<close> is at most
  \<open>min dst_len 4096\<close>: it is the smaller of that clamp and the number of characters the
  driver has available before it first reports none. The first \<open>n\<close> bytes of the buffer
  are then exactly those \<open>n\<close> characters, in order, the rest of the buffer is untouched,
  the driver has lost exactly those characters, and nothing is written to the line. If the
  driver runs out before the clamp is reached, fewer than \<open>dst_len\<close> are returned.
\<close>

theorem read_bounded:
  assumes "length (m_io_buffer s) = IO_BUFFER_SIZE"
  shows "\<exists>n s'. session_read dst_len s = Inr (n, s')
           \<and> n \<le> min dst_len 4096
           \<and> n = min (min dst_len 4096) (length (pending (rx (m_driver s))))
           \<and> m_io_buffer s' = take n (pending (rx (m_driver s))) @ drop n (m_io_buffer s)
           \<and> delivered (rx (m_driver s)) =
               take n (pending (rx (m_driver s))) @ delivered (rx (m_driver s'))
           \<and> tx (m_driver s') = tx (m_driver s)
           \<and> (length (pending (rx (m_driver s))) < min dst_len 4096 \<longrightarrow> n < dst_len)"
proof -
  define p where "p = pending (rx (m_driver s))"
  define sz where "sz = min dst_len (4096::nat)"
  define k where "k = min sz (length p)"
  define r where "r = drop (if length p < sz then Suc k else k) (rx (m_driver s))"
  define s' where
    "s' = s\<lparr>m_io_buffer := take k p @ drop k (m_io_buffer s),
             m_driver := (m_driver s)\<lparr>rx := r\<rparr>\<rparr>"
  from assms have len: "length (m_io_buffer s) = 4096" by (simp add: IO_BUFFER_SIZE_def)
  have "read_loop sz 0 s = Inr (k, s')"
    using len by (subst read_loop_eq) (simp_all add: Let_def sz_def k_def s'_def p_def r_def)
  then have res: "session_read dst_len s = Inr (k, s')"
    by (simp add: session_read_def len sz_def)
  have d: "delivered (rx (m_driver s)) = take k p @ delivered r"
  proof (cases "length p < sz")
    case True
    then have k: "k = length p" and r: "r = drop (Suc (length p)) (rx (m_driver s))"
      by (simp_all add: k_def r_def)
    have "delivered (rx (m_driver s)) = take (length p) p @ delivered (drop (length p) (rx (m_driver s)))"
      unfolding p_def by (rule delivered_pending) simp
    also have "delivered (drop (length p) (rx (m_driver s))) = delivered r"
      unfolding r p_def by (rule delivered_drop_Suc_pending [symmetric])
    finally show ?thesis unfolding k .
  next
    case False
    then have r: "r = drop k (rx (m_driver s))" by (simp add: r_def)
    have "k \<le> length (pending (rx (m_driver s)))" by (simp add: k_def p_def)
    then show ?thesis unfolding r p_def by (rule delivered_pending)
  qed
  show ?thesis
  proof (intro exI conjI)
    show "session_read dst_len s = Inr (k, s')" by (rule res)
    show "k \<le> min dst_len 4096" by (auto simp: k_def sz_def)
    show "k = min (min dst_len 4096) (length (pending (rx (m_driver s))))"
      by (simp add: k_def sz_def p_def)
    show "m_io_buffer s' = take k (pending (rx (m_driver s))) @ drop k (m_io_buffer s)"
      by (simp add: s'_def p_def)
    show "delivered (rx (m_driver s)) =
        take k (pending (rx (m_driver s))) @ delivered (rx (m_driver s'))"
      using d by (simp add: s'_def p_def)
    show "tx (m_driver s') = tx (m_driver s)" by (simp add: s'_def)
    show "length (pending (rx (m_driver s))) < min dst_len 4096 \<longrightarrow> k < dst_len"
      by (auto simp: k_def sz_def p_def)
  qed
qed

theorem read_bounded_witness:
  "length (m_io_buffer \<lparr>m_io_buffer = replicate 4096 0, m_sigh = Invalid_capability,
                         m_driver = \<lparr>rx = [Some 0x61, Some 0x62, None, Some 0x63], tx = [], baud = 0\<rparr>,
                         m_size = Size 0 0\<rparr>) = IO_BUFFER_SIZE
   \<and> (\<exists>s'. session_read 10 \<lparr>m_io_buffer = replicate 4096 0, m_sigh = Invalid_capability,
                         m_driver = \<lparr>rx = [Some 0x61, Some 0x62, None, Some 0x63], tx = [], baud = 0\<rparr>,
                         m_size = Size 0 0\<rparr> = Inr (2, s')
          \<and> m_io_buffer s' = [0x61, 0x62] @ drop 2 (replicate 4096 0)
          \<and> delivered (rx (m_driver s')) = [0x63])"
proof -
  let ?s = "\<lparr>m_io_buffer = replicate 4096 0, m_sigh = Invalid_capability,
             m_driver = \<lparr>rx = [Some 0x61, Some 0x62, None, Some 0x63], tx = [], baud = 0\<rparr>,
             m_size = Size 0 0\<rparr>"
  have h: "length (m_io_buffer ?s) = IO_BUFFER_SIZE" by (simp add: IO_BUFFER_SIZE_def)
  have p: "pending (rx (m_driver ?s)) = [0x61, 0x62]" by simp
  have dl: "delivered (rx (m_driver ?s)) = [0x61, 0x62, 0x63]" by simp
  have m: "min (min (10::nat) 4096) (length [0x61::8 word, 0x62]) = 2" by simp
  from read_bounded [OF h, of 10] obtain n s' where
    r: "session_read 10 ?s = Inr (n, s')"
    and n: "n = min (min 10 4096) (length (pending (rx (m_driver ?s))))"
    and b: "m_io_buffer s' = take n (pending (rx (m_driver ?s))) @ drop n (m_io_buffer ?s)"
    and d: "delivered (rx (m_driver ?s)) = take n (pending (rx (m_driver ?s))) @ delivered (rx (m_driver s'))"
    by blast
  from n have n2: "n = 2" unfolding p m .
  from b have b2: "m_io_buffer s' = [0x61, 0x62] @ drop 2 (replicate 4096 0)"
    unfolding n2 p by simp
  from d have d2: "delivered (rx (m_driver s')) = [0x63]"
    unfolding n2 p dl by simp
  from r n2 b2 d2 have "\<exists>s'. session_read 10 ?s = Inr (2, s')
          \<and> m_io_buffer s' = [0x61, 0x62] @ drop 2 (replicate 4096 0)
          \<and> delivered (rx (m_driver s')) = [0x63]"
    by blast
  with h show ?thesis by (rule conjI)
qed

text \<open>
  Claim C3. With the buffer of \<open>IO_BUFFER_SIZE\<close> bytes, \<open>_write\<close> appends to the
  line exactly the first \<open>min num_bytes 4096\<close> bytes of the buffer, in buffer order, and
  changes nothing else; a larger request is cut to the capacity and there is no error outcome.
\<close>

theorem write_transfers:
  assumes "length (m_io_buffer s) = IO_BUFFER_SIZE"
  shows "session_write num_bytes s =
           s\<lparr>m_driver := (m_driver s)\<lparr>tx := tx (m_driver s) @
                                             take (min num_bytes 4096) (m_io_buffer s)\<rparr>\<rparr>"
proof -
  from assms have len: "length (m_io_buffer s) = 4096" by (simp only: IO_BUFFER_SIZE_def)
  have "session_write num_bytes s = write_loop (min num_bytes 4096) 0 s"
    unfolding session_write_def len ..
  also note write_loop_clamped [OF len]
  finally show ?thesis by (simp only: diff_zero drop_0)
qed

theorem write_transfers_witness:
  "length (m_io_buffer \<lparr>m_io_buffer = 0x68 # 0x69 # replicate 4094 0, m_sigh = Invalid_capability,
                         m_driver = \<lparr>rx = [], tx = [0x3E], baud = 0\<rparr>, m_size = Size 0 0\<rparr>)
     = IO_BUFFER_SIZE
   \<and> session_write 2 \<lparr>m_io_buffer = 0x68 # 0x69 # replicate 4094 0, m_sigh = Invalid_capability,
                        m_driver = \<lparr>rx = [], tx = [0x3E], baud = 0\<rparr>, m_size = Size 0 0\<rparr>
     = \<lparr>m_io_buffer = 0x68 # 0x69 # replicate 4094 0, m_sigh = Invalid_capability,
        m_driver = \<lparr>rx = [], tx = [0x3E, 0x68, 0x69], baud = 0\<rparr>, m_size = Size 0 0\<rparr>"
proof -
  have h: "length (m_io_buffer \<lparr>m_io_buffer = 0x68 # 0x69 # replicate 4094 0, m_sigh = Invalid_capability,
                         m_driver = \<lparr>rx = [], tx = [0x3E], baud = 0\<rparr>, m_size = Size 0 0\<rparr>)
     = IO_BUFFER_SIZE"
    by (simp add: IO_BUFFER_SIZE_def)
  have "session_write 2 \<lparr>m_io_buffer = 0x68 # 0x69 # replicate 4094 0, m_sigh = Invalid_capability,
                        m_driver = \<lparr>rx = [], tx = [0x3E], baud = 0\<rparr>, m_size = Size 0 0\<rparr>
     = \<lparr>m_io_buffer = 0x68 # 0x69 # replicate 4094 0, m_sigh = Invalid_capability,
        m_driver = \<lparr>rx = [], tx = [0x3E, 0x68, 0x69], baud = 0\<rparr>, m_size = Size 0 0\<rparr>"
    using write_transfers [OF h, of 2] by simp
  with h show ?thesis by (rule conjI)
qed

subsection \<open>What the loops leave unchanged, and the driver's precondition\<close>

lemma read_loop_size: "read_loop sz n s = Inr (k, s') \<Longrightarrow> m_size s' = m_size s"
proof (induction sz n s rule: read_loop.induct)
  case (1 sz n s)
  show ?case
  proof (cases "n < sz \<and> fst (char_avail (m_driver s))")
    case True
    then obtain c xs where rx: "rx (m_driver s) = Some c # xs"
      by (auto simp: char_avail_def split: list.splits option.splits)
    then have ca: "char_avail (m_driver s) = (True, m_driver s)"
      and gc: "get_char (m_driver s) = Inr (c, (m_driver s)\<lparr>rx := xs\<rparr>)"
      by (simp_all add: char_avail_def get_char_def)
    let ?s = "s\<lparr>m_io_buffer := (m_io_buffer s)[n := c], m_driver := (m_driver s)\<lparr>rx := xs\<rparr>\<rparr>"
    have "read_loop sz n s = read_loop sz (Suc n) ?s"
      using True ca gc by (subst read_loop.simps) simp
    with "1.prems" have "read_loop sz (Suc n) ?s = Inr (k, s')" by simp
    with True ca gc have "m_size s' = m_size ?s"
      by (intro "1.IH") simp_all
    then show ?thesis by simp
  next
    case False
    then have "read_loop sz n s = Inr (n, s) \<or>
               read_loop sz n s = Inr (n, s\<lparr>m_driver := snd (char_avail (m_driver s))\<rparr>)"
      by (subst read_loop.simps, subst (2) read_loop.simps) (auto split: prod.splits)
    with "1.prems" show ?thesis by auto
  qed
qed

lemma read_loop_no_exn: "read_loop sz n s \<noteq> Inl e"
proof (induction sz n s rule: read_loop.induct)
  case (1 sz n s)
  show ?case
  proof (cases "n < sz \<and> fst (char_avail (m_driver s))")
    case True
    then obtain c xs where rx: "rx (m_driver s) = Some c # xs"
      by (auto simp: char_avail_def split: list.splits option.splits)
    then have ca: "char_avail (m_driver s) = (True, m_driver s)"
      and gc: "get_char (m_driver s) = Inr (c, (m_driver s)\<lparr>rx := xs\<rparr>)"
      by (simp_all add: char_avail_def get_char_def)
    from True ca gc have
      "read_loop sz (Suc n) (s\<lparr>m_io_buffer := (m_io_buffer s)[n := c], m_driver := (m_driver s)\<lparr>rx := xs\<rparr>\<rparr>) \<noteq> Inl e"
      by (intro "1.IH") simp_all
    with True ca gc show ?thesis by (subst read_loop.simps) simp
  next
    case False
    then show ?thesis by (subst read_loop.simps) (auto split: prod.splits)
  qed
qed

lemma write_loop_size: "m_size (write_loop num_bytes i s) = m_size s"
proof (induction num_bytes i s rule: write_loop.induct)
  case (1 num_bytes i s)
  show ?case
  proof (cases "i < num_bytes")
    case True
    with "1.IH" show ?thesis by (subst write_loop.simps) simp
  next
    case False
    then show ?thesis by (subst write_loop.simps) simp
  qed
qed

lemma baud_rate_size: "m_size (fold baud_rate bitss s) = m_size s"
  by (induction bitss arbitrary: s) (simp_all add: baud_rate_def)

lemma poll_char_no_exn: "poll_char d \<noteq> Some (Inl e)"
proof (cases "delivered (rx d)")
  case Nil
  then show ?thesis by (simp add: poll_char_delivered_Nil)
next
  case (Cons c cs)
  then show ?thesis using poll_char_delivered_Cons [of d c cs] by auto
qed

lemma flush_no_exn: "flush d \<noteq> Some (Inl e)"
  by (simp add: flush_eq)

lemma read_number_no_exn: "read_number d \<noteq> Some (Inl e)"
proof (cases "dropWhile is_digit (delivered (rx d))")
  case Nil
  then show ?thesis by (simp add: read_number_unfinished del: dropWhile_eq_Nil_conv)
next
  case (Cons c rest)
  then show ?thesis using read_number_stops [of d c rest] by auto
qed

lemma detect_size_no_exn: "detect_size d \<noteq> Some (Inl e)"
  using detect_size_cursor_report [of d]
  by (cases "cursor_report (delivered (after_flush (rx d)))") auto

lemma Session_component_no_exn:
  "Session_component env index baudrate detect r \<noteq> Some (Inl e, r')"
proof (cases detect)
  case False
  then show ?thesis by (simp add: Session_component_def Let_def)
next
  case True
  show ?thesis
  proof (cases "detect_size (create env index baudrate)")
    case None
    with True show ?thesis by (simp add: Session_component_def Let_def)
  next
    case (Some res)
    with detect_size_no_exn [of "create env index baudrate"] obtain sz d'
      where "res = Inr (sz, d')" by (cases res) auto
    with True Some show ?thesis by (simp add: Session_component_def Let_def)
  qed
qed

text \<open>
  Claim C9. No operation of the component ever calls \<open>get_char\<close> while the driver has no
  character: \<open>_poll_char\<close>, the flush loop, \<open>_read_number\<close>, \<open>_detect_size\<close>,
  \<open>_read\<close> and the constructor never end in an exception, in particular never in
  \<open>Char_not_available\<close>, whatever the driver delivers; a run that does not return has not
  broken the precondition either, since breaking it ends the run. The last two conjuncts
  show what is avoided: \<open>get_char\<close> on a driver with nothing to fetch is the fault.
\<close>

theorem get_char_only_when_available:
  "poll_char d \<noteq> Some (Inl e)
   \<and> flush d \<noteq> Some (Inl e)
   \<and> read_number d \<noteq> Some (Inl e)
   \<and> detect_size d \<noteq> Some (Inl e)
   \<and> session_read dst_len s \<noteq> Inl e
   \<and> Session_component env index baudrate detect r \<noteq> Some (Inl e, r')
   \<and> get_char (d\<lparr>rx := []\<rparr>) = Inl Char_not_available
   \<and> get_char (d\<lparr>rx := None # xs\<rparr>) = Inl Char_not_available"
  by (simp add: poll_char_no_exn flush_no_exn read_number_no_exn detect_size_no_exn
      session_read_def read_loop_no_exn Session_component_no_exn get_char_def)

theorem get_char_only_when_available_witness:
  "poll_char \<lparr>rx = [None, Some 0x41], tx = [], baud = 0\<rparr> \<noteq> Some (Inl Char_not_available)
   \<and> flush \<lparr>rx = [None, Some 0x41], tx = [], baud = 0\<rparr> \<noteq> Some (Inl Char_not_available)"
  using get_char_only_when_available
    [of "\<lparr>rx = [None, Some 0x41], tx = [], baud = 0\<rparr>" Char_not_available]
  by blast

subsection \<open>Signal handlers\<close>

text \<open>
  Claim C7. \<open>connected_sigh\<close> sends exactly one notification, to the target it is given,
  in every state and however often it has been called before, and leaves the session as
  it was.
\<close>

theorem connected_sigh_always_fires:
  "connected_sigh sigh s = ([sigh], s)
   \<and> connected_sigh sigh (snd (connected_sigh sigh' s)) = ([sigh], s)"
  by (simp add: connected_sigh_def submit_def)

theorem connected_sigh_always_fires_witness:
  "connected_sigh (Capability 3)
     \<lparr>m_io_buffer = replicate 4096 0, m_sigh = Invalid_capability,
      m_driver = \<lparr>rx = [], tx = [], baud = 0\<rparr>, m_size = Size 0 0\<rparr>
   = ([Capability 3],
      \<lparr>m_io_buffer = replicate 4096 0, m_sigh = Invalid_capability,
       m_driver = \<lparr>rx = [], tx = [], baud = 0\<rparr>, m_size = Size 0 0\<rparr>)"
  by (rule conjunct1 [OF connected_sigh_always_fires])

text \<open>
  Claim C5. A target is a valid capability; an invalid one is the absent target. If the
  driver reports a character available when \<open>read_avail_sigh target\<close> is called, one
  notification is sent to \<open>target\<close> within the call and \<open>target\<close> is stored. If no
  character is available, nothing is sent: the call stores the target, and the driver has
  been polled once. With the absent target nothing is sent either: the callback submits
  only to a valid target.
\<close>

theorem read_avail_sigh_catch_up:
  "(fst (char_avail (m_driver s)) \<and> valid target \<longrightarrow>
      read_avail_sigh target s = ([target], s\<lparr>m_sigh := target\<rparr>))
   \<and> (\<not> (fst (char_avail (m_driver s)) \<and> valid target) \<longrightarrow>
      read_avail_sigh target s =
        ([], s\<lparr>m_sigh := target, m_driver := snd (char_avail (m_driver s))\<rparr>))"
proof (cases "rx (m_driver s)")
  case Nil
  then show ?thesis
    by (simp add: read_avail_sigh_def Let_def char_avail_def)
next
  case (Cons x xs)
  show ?thesis
  proof (cases x)
    case None
    with Cons show ?thesis
      by (simp add: read_avail_sigh_def Let_def char_avail_def)
  next
    case (Some c)
    with Cons have ca: "char_avail (m_driver s) = (True, m_driver s)"
      by (simp add: char_avail_def)
    then show ?thesis
      by (simp add: read_avail_sigh_def Let_def char_avail_callback_def submit_def)
  qed
qed

theorem read_avail_sigh_catch_up_witness:
  "fst (char_avail (m_driver
     \<lparr>m_io_buffer = replicate 4096 0, m_sigh = Invalid_capability,
      m_driver = \<lparr>rx = [Some 0x41], tx = [], baud = 0\<rparr>, m_size = Size 0 0\<rparr>))
   \<and> valid (Capability 5)
   \<and> read_avail_sigh (Capability 5)
     \<lparr>m_io_buffer = replicate 4096 0, m_sigh = Invalid_capability,
      m_driver = \<lparr>rx = [Some 0x41], tx = [], baud = 0\<rparr>, m_size = Size 0 0\<rparr>
     = ([Capability 5],
        \<lparr>m_io_buffer = replicate 4096 0, m_sigh = Capability 5,
         m_driver = \<lparr>rx = [Some 0x41], tx = [], baud = 0\<rparr>, m_size = Size 0 0\<rparr>)
   \<and> \<not> fst (char_avail (m_driver
     \<lparr>m_io_buffer = replicate 4096 0, m_sigh = Invalid_capability,
      m_driver = \<lparr>rx = [None, Some 0x41], tx = [], baud = 0\<rparr>, m_size = Size 0 0\<rparr>))
   \<and> read_avail_sigh (Capability 5)
     \<lparr>m_io_buffer = replicate 4096 0, m_sigh = Invalid_capability,
      m_driver = \<lparr>rx = [None, Some 0x41], tx = [], baud = 0\<rparr>, m_size = Size 0 0\<rparr>
     = ([],
        \<lparr>m_io_buffer = replicate 4096 0, m_sigh = Capability 5,
         m_driver = \<lparr>rx = [Some 0x41], tx = [], baud = 0\<rparr>, m_size = Size 0 0\<rparr>)"
proof -
  let ?s1 = "\<lparr>m_io_buffer = replicate 4096 0, m_sigh = Invalid_capability,
      m_driver = \<lparr>rx = [Some 0x41], tx = [], baud = 0\<rparr>, m_size = Size 0 0\<rparr>"
  let ?s2 = "\<lparr>m_io_buffer = replicate 4096 0, m_sigh = Invalid_capability,
      m_driver = \<lparr>rx = [None, Some 0x41], tx = [], baud = 0\<rparr>, m_size = Size 0 0\<rparr>"
  have a1: "fst (char_avail (m_driver ?s1))" by (simp add: char_avail_def)
  have v: "valid (Capability 5)" by simp
  have a2: "\<not> fst (char_avail (m_driver ?s2))" by (simp add: char_avail_def)
  have p2: "snd (char_avail (m_driver ?s2)) = \<lparr>rx = [Some 0x41], tx = [], baud = 0\<rparr>"
    by (simp add: char_avail_def)
  from read_avail_sigh_catch_up [of ?s1 "Capability 5"] a1 v
  have r1: "read_avail_sigh (Capability 5) ?s1 = ([Capability 5], ?s1\<lparr>m_sigh := Capability 5\<rparr>)"
    by blast
  from read_avail_sigh_catch_up [of ?s2 "Capability 5"] a2
  have r2: "read_avail_sigh (Capability 5) ?s2 =
      ([], ?s2\<lparr>m_sigh := Capability 5, m_driver := snd (char_avail (m_driver ?s2))\<rparr>)"
    by blast
  from a1 v r1 a2 r2 show ?thesis unfolding p2 by simp
qed

subsection \<open>The size is fixed at construction\<close>

text \<open>
  Claim C6. No sequence of \<open>baud_rate\<close> calls changes what \<open>size\<close> returns, and neither
  does any other operation of the session (\<open>_write\<close>, \<open>_read\<close>, \<open>avail\<close>,
  \<open>connected_sigh\<close>, \<open>read_avail_sigh\<close>). The constructor sets the size once: to
  \<open>Size 0 0\<close> when detection is not asked for, and otherwise to what \<open>_detect_size\<close>
  returns (the constructor returns exactly when \<open>_detect_size\<close> does).
\<close>

theorem size_never_changes:
  "session_size (fold baud_rate bitss s) = session_size s
   \<and> session_size (session_write num_bytes s) = session_size s
   \<and> (\<exists>k s'. session_read dst_len s = Inr (k, s') \<and> session_size s' = session_size s)
   \<and> session_size (snd (avail s)) = session_size s
   \<and> session_size (snd (connected_sigh sigh s)) = session_size s
   \<and> session_size (snd (read_avail_sigh sigh s)) = session_size s
   \<and> (\<exists>s' r'. Session_component env index baudrate False r = Some (Inr s', r')
               \<and> session_size s' = Size 0 0)
   \<and> (case detect_size (create env index baudrate) of
         None \<Rightarrow> Session_component env index baudrate True r = None
       | Some (Inl e) \<Rightarrow> False
       | Some (Inr (sz, d')) \<Rightarrow>
           (\<exists>s' r'. Session_component env index baudrate True r = Some (Inr s', r')
                  \<and> session_size s' = sz))"
proof -
  have 1: "session_size (fold baud_rate bitss s) = session_size s"
    by (simp add: session_size_def baud_rate_size)
  have 2: "session_size (session_write num_bytes s) = session_size s"
    by (simp add: session_size_def session_write_def write_loop_size)
  have 3: "\<exists>k s'. session_read dst_len s = Inr (k, s') \<and> session_size s' = session_size s"
  proof (cases "session_read dst_len s")
    case (Inl e)
    then show ?thesis by (simp add: session_read_def read_loop_no_exn)
  next
    case (Inr res)
    then obtain k s' where "session_read dst_len s = Inr (k, s')" by (cases res) auto
    then show ?thesis
      using read_loop_size [of _ 0 s k s'] by (auto simp: session_read_def session_size_def)
  qed
  have 4: "session_size (snd (avail s)) = session_size s"
    by (simp add: session_size_def avail_def split: prod.splits)
  have 5: "session_size (snd (connected_sigh sigh s)) = session_size s"
    by (simp add: connected_sigh_def)
  have 6: "session_size (snd (read_avail_sigh sigh s)) = session_size s"
    by (simp add: session_size_def read_avail_sigh_def Let_def split: prod.splits)
  have 7: "\<exists>s' r'. Session_component env index baudrate False r = Some (Inr s', r')
               \<and> session_size s' = Size 0 0"
    by (simp add: Session_component_def Let_def session_size_def)
  have 8: "case detect_size (create env index baudrate) of
         None \<Rightarrow> Session_component env index baudrate True r = None
       | Some (Inl e) \<Rightarrow> False
       | Some (Inr (sz, d')) \<Rightarrow>
           (\<exists>s' r'. Session_component env index baudrate True r = Some (Inr s', r')
                  \<and> session_size s' = sz)"
    using detect_size_no_exn [of "create env index baudrate"]
    by (auto simp: Session_component_def Let_def session_size_def split: option.splits sum.splits)
  from 1 2 3 4 5 6 7 8 show ?thesis by (intro conjI)
qed

theorem size_never_changes_witness:
  "session_size (fold baud_rate [9600, 115200]
     \<lparr>m_io_buffer = replicate 4096 0, m_sigh = Invalid_capability,
      m_driver = \<lparr>rx = [], tx = [], baud = 0\<rparr>, m_size = Size 80 24\<rparr>) = Size 80 24"
  using conjunct1 [OF size_never_changes, of "[9600, 115200]"
     "\<lparr>m_io_buffer = replicate 4096 0, m_sigh = Invalid_capability,
      m_driver = \<lparr>rx = [], tx = [], baud = 0\<rparr>, m_size = Size 80 24\<rparr>"]
  by (simp only: session_size_def session.simps)

subsection \<open>Session creation\<close>

lemma Session_component_cases:
  "Session_component env index baudrate detect r = None
   \<or> (\<exists>s' r'. Session_component env index baudrate detect r = Some (Inr s', r'))"
proof (cases "Session_component env index baudrate detect r")
  case None
  then show ?thesis by simp
next
  case (Some res)
  obtain x r' where res: "res = (x, r')" by (cases res)
  with Some Session_component_no_exn [of env index baudrate detect r _ r']
  obtain s' where "x = Inr s'" by (cases x) auto
  with Some res show ?thesis by simp
qed

lemma create_session_no_policy:
  "session_policy env (session_label env args) = None \<Longrightarrow>
   create_session env args r = Some (Inl Unavailable, r)"
  by (simp add: create_session_def create_session_try_def Let_def)

lemma create_session_no_uart:
  "session_policy env (session_label env args) = Some policy \<Longrightarrow> map_of policy ''uart'' = None \<Longrightarrow>
   create_session env args r = Some (Inl Unavailable, r)"
  by (simp add: create_session_def create_session_try_def Let_def attribute_def)

lemma create_session_uart:
  assumes "session_policy env (session_label env args) = Some policy"
    and "map_of policy ''uart'' = Some u"
  shows "create_session env args r =
           Session_component env (attr_value env u 0)
             (case attribute policy ''baudrate'' of Inl e \<Rightarrow> 0 | Inr b \<Rightarrow> attr_value env b 0)
             (case attribute policy ''detect_size'' of Inl e \<Rightarrow> False | Inr v \<Rightarrow> v = ''yes'') r"
proof -
  let ?c = "Session_component env (attr_value env u 0)
             (case attribute policy ''baudrate'' of Inl e \<Rightarrow> 0 | Inr b \<Rightarrow> attr_value env b 0)
             (case attribute policy ''detect_size'' of Inl e \<Rightarrow> False | Inr v \<Rightarrow> v = ''yes'') r"
  from assms have t: "create_session_try env args r = ?c"
    by (simp add: create_session_try_def Let_def attribute_def)
  from Session_component_cases [of env _ _ _ r]
  have "?c = None \<or> (\<exists>s' r'. ?c = Some (Inr s', r'))" .
  then show ?thesis
  proof
    assume "?c = None"
    with t show ?thesis by (simp add: create_session_def)
  next
    assume "\<exists>s' r'. ?c = Some (Inr s', r')"
    then obtain s' r' where "?c = Some (Inr s', r')" by blast
    with t show ?thesis by (simp add: create_session_def)
  qed
qed

text \<open>
  Claim C4. If no policy matches the label, or the matching policy has no \<open>uart\<close>
  attribute, \<open>_create_session\<close> throws \<open>Unavailable\<close> and the resources are as before:
  no dataspace has been allocated and no driver created. If the policy has a \<open>uart\<close>
  attribute, \<open>Unavailable\<close> is never the outcome, whether or not \<open>baudrate\<close> and
  \<open>detect_size\<close> are present; with both absent the session is created with baud rate 0
  and without size detection, and exactly one buffer and one driver are allocated.
\<close>

theorem create_session_unavailable:
  "((session_policy env (session_label env args) = None
      \<or> (\<exists>policy. session_policy env (session_label env args) = Some policy
                 \<and> map_of policy ''uart'' = None))
     \<longrightarrow> create_session env args r = Some (Inl Unavailable, r))
   \<and> (\<forall>policy u.
        session_policy env (session_label env args) = Some policy \<and> map_of policy ''uart'' = Some u
        \<longrightarrow> (\<forall>r'. create_session env args r \<noteq> Some (Inl Unavailable, r'))
            \<and> (map_of policy ''baudrate'' = None \<and> map_of policy ''detect_size'' = None
                 \<longrightarrow> create_session env args r =
                       Some (Inr \<lparr>m_io_buffer = replicate IO_BUFFER_SIZE 0,
                                  m_sigh = Invalid_capability,
                                  m_driver = create env (attr_value env u 0) 0,
                                  m_size = Size 0 0\<rparr>,
                             r\<lparr>ram_dataspaces := ram_dataspaces r @ [IO_BUFFER_SIZE],
                               drivers := drivers r @ [(attr_value env u 0, 0)]\<rparr>)))"
proof (intro conjI allI impI)
  assume "session_policy env (session_label env args) = None
      \<or> (\<exists>policy. session_policy env (session_label env args) = Some policy
                 \<and> map_of policy ''uart'' = None)"
  then show "create_session env args r = Some (Inl Unavailable, r)"
    using create_session_no_policy create_session_no_uart by blast
next
  fix policy u r'
  assume a: "session_policy env (session_label env args) = Some policy \<and> map_of policy ''uart'' = Some u"
  then show "create_session env args r \<noteq> Some (Inl Unavailable, r')"
    by (simp add: create_session_uart Session_component_no_exn)
next
  fix policy u
  assume a: "session_policy env (session_label env args) = Some policy \<and> map_of policy ''uart'' = Some u"
    and b: "map_of policy ''baudrate'' = None \<and> map_of policy ''detect_size'' = None"
  from a have "create_session env args r =
           Session_component env (attr_value env u 0)
             (case attribute policy ''baudrate'' of Inl e \<Rightarrow> 0 | Inr b \<Rightarrow> attr_value env b 0)
             (case attribute policy ''detect_size'' of Inl e \<Rightarrow> False | Inr v \<Rightarrow> v = ''yes'') r"
    by (intro create_session_uart) simp_all
  with b show "create_session env args r =
                       Some (Inr \<lparr>m_io_buffer = replicate IO_BUFFER_SIZE 0,
                                  m_sigh = Invalid_capability,
                                  m_driver = create env (attr_value env u 0) 0,
                                  m_size = Size 0 0\<rparr>,
                             r\<lparr>ram_dataspaces := ram_dataspaces r @ [IO_BUFFER_SIZE],
                               drivers := drivers r @ [(attr_value env u 0, 0)]\<rparr>)"
    by (simp add: attribute_def Session_component_def Let_def)
qed

theorem create_session_unavailable_witness:
  "session_policy
      \<lparr>session_label = (\<lambda>a. a),
       session_policy = map_of [(''terminal'', [(''uart'', ''1'')]), (''broken'', [(''baudrate'', ''9600'')])],
       attr_value = (\<lambda>v old. if v = ''1'' then 1 else old),
       create = (\<lambda>i b. \<lparr>rx = [], tx = [], baud = 0\<rparr>)\<rparr> ''log'' = None
   \<and> create_session
      \<lparr>session_label = (\<lambda>a. a),
       session_policy = map_of [(''terminal'', [(''uart'', ''1'')]), (''broken'', [(''baudrate'', ''9600'')])],
       attr_value = (\<lambda>v old. if v = ''1'' then 1 else old),
       create = (\<lambda>i b. \<lparr>rx = [], tx = [], baud = 0\<rparr>)\<rparr> ''log''
      \<lparr>ram_dataspaces = [], drivers = []\<rparr>
     = Some (Inl Unavailable, \<lparr>ram_dataspaces = [], drivers = []\<rparr>)
   \<and> create_session
      \<lparr>session_label = (\<lambda>a. a),
       session_policy = map_of [(''terminal'', [(''uart'', ''1'')]), (''broken'', [(''baudrate'', ''9600'')])],
       attr_value = (\<lambda>v old. if v = ''1'' then 1 else old),
       create = (\<lambda>i b. \<lparr>rx = [], tx = [], baud = 0\<rparr>)\<rparr> ''broken''
      \<lparr>ram_dataspaces = [], drivers = []\<rparr>
     = Some (Inl Unavailable, \<lparr>ram_dataspaces = [], drivers = []\<rparr>)
   \<and> create_session
      \<lparr>session_label = (\<lambda>a. a),
       session_policy = map_of [(''terminal'', [(''uart'', ''1'')]), (''broken'', [(''baudrate'', ''9600'')])],
       attr_value = (\<lambda>v old. if v = ''1'' then 1 else old),
       create = (\<lambda>i b. \<lparr>rx = [], tx = [], baud = 0\<rparr>)\<rparr> ''terminal''
      \<lparr>ram_dataspaces = [], drivers = []\<rparr>
     = Some (Inr \<lparr>m_io_buffer = replicate IO_BUFFER_SIZE 0, m_sigh = Invalid_capability,
                  m_driver = \<lparr>rx = [], tx = [], baud = 0\<rparr>, m_size = Size 0 0\<rparr>,
             \<lparr>ram_dataspaces = [IO_BUFFER_SIZE], drivers = [(1, 0)]\<rparr>)"
proof -
  let ?env = "\<lparr>session_label = (\<lambda>a. a),
       session_policy = map_of [(''terminal'', [(''uart'', ''1'')]), (''broken'', [(''baudrate'', ''9600'')])],
       attr_value = (\<lambda>v old. if v = ''1'' then (1::32 word) else old),
       create = (\<lambda>i b. \<lparr>rx = [], tx = [], baud = 0\<rparr>)\<rparr>"
  let ?r = "\<lparr>ram_dataspaces = [], drivers = []\<rparr>"
  have p1: "session_policy ?env (session_label ?env ''log'') = None" by simp
  have p2: "session_policy ?env (session_label ?env ''broken'') = Some [(''baudrate'', ''9600'')]
            \<and> map_of [(''baudrate'', ''9600'')] ''uart'' = None" by simp
  have p3: "session_policy ?env (session_label ?env ''terminal'') = Some [(''uart'', ''1'')]
            \<and> map_of [(''uart'', ''1'')] ''uart'' = Some ''1''" by simp
  have p4: "map_of [(''uart'', ''1'')] ''baudrate'' = None \<and> map_of [(''uart'', ''1'')] ''detect_size'' = None"
    by simp
  from create_session_unavailable [of ?env "''log''" ?r] p1
  have c1: "create_session ?env ''log'' ?r = Some (Inl Unavailable, ?r)" by blast
  from create_session_unavailable [of ?env "''broken''" ?r] p2
  have c2: "create_session ?env ''broken'' ?r = Some (Inl Unavailable, ?r)" by blast
  from create_session_unavailable [of ?env "''terminal''" ?r] p3 p4
  have "create_session ?env ''terminal'' ?r =
          Some (Inr \<lparr>m_io_buffer = replicate IO_BUFFER_SIZE 0, m_sigh = Invalid_capability,
                     m_driver = create ?env (attr_value ?env ''1'' 0) 0, m_size = Size 0 0\<rparr>,
                ?r\<lparr>ram_dataspaces := ram_dataspaces ?r @ [IO_BUFFER_SIZE],
                   drivers := drivers ?r @ [(attr_value ?env ''1'' 0, 0)]\<rparr>)" by blast
  then have c3: "create_session ?env ''terminal'' ?r =
     Some (Inr \<lparr>m_io_buffer = replicate IO_BUFFER_SIZE 0, m_sigh = Invalid_capability,
                  m_driver = \<lparr>rx = [], tx = [], baud = 0\<rparr>, m_size = Size 0 0\<rparr>,
             \<lparr>ram_dataspaces = [IO_BUFFER_SIZE], drivers = [(1, 0)]\<rparr>)" by simp
  from p1 c1 c2 c3 show ?thesis by simp
qed

subsection \<open>Size detection\<close>

lemma digits_dropWhile:
  "list_all is_digit ds \<Longrightarrow> \<not> is_digit c \<Longrightarrow> dropWhile is_digit (ds @ c # rest) = c # rest"
  by (induction ds) simp_all

lemma digits_takeWhile:
  "list_all is_digit ds \<Longrightarrow> \<not> is_digit c \<Longrightarrow> takeWhile is_digit (ds @ c # rest) = ds"
  by (induction ds) simp_all

lemma not_digit_separators: "\<not> is_digit 0x3B" "\<not> is_digit 0x52"
  by (simp_all add: is_digit_def)

lemma cursor_report_match:
  assumes "list_all is_digit hs" "list_all is_digit ws"
  shows "cursor_report (0x1B # 0x5B # hs @ 0x3B # ws @ 0x52 # rest) = Some (Size (decimal ws) (decimal hs))"
  using assms
  by (simp add: cursor_report_def digits_dropWhile digits_takeWhile not_digit_separators)

lemma cursor_report_not_esc: "c \<noteq> 0x1B \<Longrightarrow> cursor_report (c # rest) = Some (Size 0 0)"
  by (simp add: cursor_report_def)

lemma cursor_report_not_bracket: "c \<noteq> 0x5B \<Longrightarrow> cursor_report (0x1B # c # rest) = Some (Size 0 0)"
  by (simp add: cursor_report_def)

lemma cursor_report_not_semicolon:
  "list_all is_digit hs \<Longrightarrow> \<not> is_digit c \<Longrightarrow> c \<noteq> 0x3B \<Longrightarrow>
   cursor_report (0x1B # 0x5B # hs @ c # rest) = Some (Size 0 0)"
  by (simp add: cursor_report_def digits_dropWhile)

lemma cursor_report_not_R:
  "list_all is_digit hs \<Longrightarrow> list_all is_digit ws \<Longrightarrow> \<not> is_digit c \<Longrightarrow> c \<noteq> 0x52 \<Longrightarrow>
   cursor_report (0x1B # 0x5B # hs @ 0x3B # ws @ c # rest) = Some (Size 0 0)"
  by (simp add: cursor_report_def digits_dropWhile not_digit_separators)

lemma dropWhile_digits_Cons:
  assumes "dropWhile is_digit cs = c # rest"
  shows "cs = takeWhile is_digit cs @ c # rest \<and> list_all is_digit (takeWhile is_digit cs) \<and> \<not> is_digit c"
proof -
  from assms have "cs = takeWhile is_digit cs @ c # rest"
    by (metis takeWhile_dropWhile_id)
  moreover have "list_all is_digit (takeWhile is_digit cs)"
    by (simp add: list_all_iff) (meson set_takeWhileD)
  moreover from assms have "\<not> is_digit c"
    by (metis hd_dropWhile list.sel(1) list.distinct(1))
  ultimately show ?thesis by blast
qed

lemma report_decidedI:
  "c \<noteq> 0x1B \<Longrightarrow> report_decided (c # rest)"
  "c \<noteq> 0x5B \<Longrightarrow> report_decided (0x1B # c # rest)"
  "list_all is_digit hs \<Longrightarrow> \<not> is_digit c \<Longrightarrow> c \<noteq> 0x3B \<Longrightarrow>
     report_decided (0x1B # 0x5B # hs @ c # rest)"
  "list_all is_digit hs \<Longrightarrow> list_all is_digit ws \<Longrightarrow> \<not> is_digit c \<Longrightarrow>
     report_decided (0x1B # 0x5B # hs @ 0x3B # ws @ c # rest)"
proof -
  show "c \<noteq> 0x1B \<Longrightarrow> report_decided (c # rest)"
    unfolding report_decided_def by (intro disjI1) simp
  show "c \<noteq> 0x5B \<Longrightarrow> report_decided (0x1B # c # rest)"
    unfolding report_decided_def by (intro disjI2 disjI1) simp
  show "list_all is_digit hs \<Longrightarrow> \<not> is_digit c \<Longrightarrow> c \<noteq> 0x3B \<Longrightarrow>
     report_decided (0x1B # 0x5B # hs @ c # rest)"
    unfolding report_decided_def
    by (rule disjI2, rule disjI2, rule disjI1, rule exI [of _ hs], rule exI [of _ c],
        rule exI [of _ rest]) simp
  show "list_all is_digit hs \<Longrightarrow> list_all is_digit ws \<Longrightarrow> \<not> is_digit c \<Longrightarrow>
     report_decided (0x1B # 0x5B # hs @ 0x3B # ws @ c # rest)"
    unfolding report_decided_def
    by (rule disjI2, rule disjI2, rule disjI2, rule exI [of _ hs], rule exI [of _ ws],
        rule exI [of _ c], rule exI [of _ rest]) simp
qed

lemma report_decided_cursor_report:
  assumes "report_decided cs"
  shows "cursor_report cs \<noteq> None"
  using assms unfolding report_decided_def
proof (elim disjE exE conjE)
  fix c rest
  assume "cs = c # rest" "c \<noteq> 0x1B"
  then show ?thesis by (simp add: cursor_report_not_esc)
next
  fix c rest
  assume "cs = 0x1B # c # rest" "c \<noteq> 0x5B"
  then show ?thesis by (simp add: cursor_report_not_bracket)
next
  fix hs c rest
  assume "cs = 0x1B # 0x5B # hs @ c # rest" "list_all is_digit hs" "\<not> is_digit c" "c \<noteq> 0x3B"
  then show ?thesis by (simp add: cursor_report_not_semicolon)
next
  fix hs ws c rest
  assume e: "cs = 0x1B # 0x5B # hs @ 0x3B # ws @ c # rest"
    and d: "list_all is_digit hs" "list_all is_digit ws" "\<not> is_digit c"
  show ?thesis
  proof (cases "c = 0x52")
    case True
    from cursor_report_match [OF d(1) d(2), of rest] e True show ?thesis by simp
  next
    case False
    from cursor_report_not_R [OF d False, of rest] e show ?thesis by simp
  qed
qed

lemma cursor_report_report_decided:
  assumes r: "cursor_report cs \<noteq> None"
  shows "report_decided cs"
proof (cases cs)
  case Nil
  with r show ?thesis by (simp add: cursor_report_def)
next
  case cs: (Cons c1 cs1)
  show ?thesis
  proof (cases "c1 = 0x1B")
    case False
    then show ?thesis unfolding cs by (rule report_decidedI(1))
  next
    case c1: True
    show ?thesis
    proof (cases cs1)
      case Nil
      with r cs c1 show ?thesis by (simp add: cursor_report_def)
    next
      case cs1: (Cons c2 cs2)
      show ?thesis
      proof (cases "c2 = 0x5B")
        case False
        then show ?thesis unfolding cs cs1 c1 by (rule report_decidedI(2))
      next
        case c2: True
        show ?thesis
        proof (cases "dropWhile is_digit cs2")
          case Nil
          have "cursor_report (0x1B # 0x5B # cs2) = None"
            unfolding cursor_report_def by (simp add: Nil del: dropWhile_eq_Nil_conv)
          with r show ?thesis unfolding cs cs1 c1 c2 by simp
        next
          case n1: (Cons c3 cs3)
          from dropWhile_digits_Cons [OF n1] obtain hs where
            hs: "cs2 = hs @ c3 # cs3" "list_all is_digit hs" "\<not> is_digit c3" by blast
          show ?thesis
          proof (cases "c3 = 0x3B")
            case False
            from hs(2) hs(3) False show ?thesis
              unfolding cs cs1 c1 c2 hs(1) by (rule report_decidedI(3))
          next
            case c3: True
            show ?thesis
            proof (cases "dropWhile is_digit cs3")
              case Nil
              have "cursor_report (0x1B # 0x5B # cs2) = None"
                unfolding cursor_report_def
                by (simp add: n1 c3 Nil del: dropWhile_eq_Nil_conv)
              with r show ?thesis unfolding cs cs1 c1 c2 by simp
            next
              case n2: (Cons c4 cs4)
              from dropWhile_digits_Cons [OF n2] obtain ws where
                ws: "cs3 = ws @ c4 # cs4" "list_all is_digit ws" "\<not> is_digit c4" by blast
              from hs(2) ws(2) ws(3) show ?thesis
                unfolding cs cs1 c1 c2 hs(1) c3 ws(1) by (rule report_decidedI(4))
            qed
          qed
        qed
      qed
    qed
  qed
qed

lemma report_decided_iff: "report_decided cs \<longleftrightarrow> cursor_report cs \<noteq> None"
  using report_decided_cursor_report cursor_report_report_decided by blast

lemma detect_size_Some:
  "cursor_report (delivered (after_flush (rx d))) = Some sz \<Longrightarrow>
   \<exists>d'. detect_size d = Some (Inr (sz, d'))
      \<and> tx d' = tx d @ set_cursor_string @ request_cursor_string \<and> baud d' = baud d"
  using detect_size_cursor_report [of d] by simp

lemma detect_size_None:
  "cursor_report (delivered (after_flush (rx d))) = None \<Longrightarrow> detect_size d = None"
  using detect_size_cursor_report [of d] by simp

lemma poll_char_eval:
  "poll_char \<lparr>rx = [], tx = t, baud = b\<rparr> = None"
  "poll_char \<lparr>rx = None # xs, tx = t, baud = b\<rparr> = poll_char \<lparr>rx = xs, tx = t, baud = b\<rparr>"
  "poll_char \<lparr>rx = Some c # xs, tx = t, baud = b\<rparr> = Some (Inr (c, \<lparr>rx = xs, tx = t, baud = b\<rparr>))"
  by (simp_all add: poll_char_Nil poll_char_None poll_char_Some)

lemma read_number_loop_eval:
  "read_number_loop acc \<lparr>rx = [], tx = t, baud = b\<rparr> = None"
  "read_number_loop acc \<lparr>rx = None # xs, tx = t, baud = b\<rparr> =
     read_number_loop acc \<lparr>rx = xs, tx = t, baud = b\<rparr>"
  "read_number_loop acc \<lparr>rx = Some c # xs, tx = t, baud = b\<rparr> =
     (if \<not> is_digit c then Some (Inr (c, acc, \<lparr>rx = xs, tx = t, baud = b\<rparr>))
      else read_number_loop (acc * 10 + word_of_int (digit c)) \<lparr>rx = xs, tx = t, baud = b\<rparr>)"
proof -
  show "read_number_loop acc \<lparr>rx = [], tx = t, baud = b\<rparr> = None"
    by (subst read_number_loop.simps) (simp add: poll_char_eval)
  show "read_number_loop acc \<lparr>rx = None # xs, tx = t, baud = b\<rparr> =
     read_number_loop acc \<lparr>rx = xs, tx = t, baud = b\<rparr>"
    by (subst read_number_loop.simps, subst (2) read_number_loop.simps) (simp add: poll_char_eval)
  show "read_number_loop acc \<lparr>rx = Some c # xs, tx = t, baud = b\<rparr> =
     (if \<not> is_digit c then Some (Inr (c, acc, \<lparr>rx = xs, tx = t, baud = b\<rparr>))
      else read_number_loop (acc * 10 + word_of_int (digit c)) \<lparr>rx = xs, tx = t, baud = b\<rparr>)"
    by (subst read_number_loop.simps) (simp add: poll_char_eval)
qed

lemma decimal_eval: "decimal [0x32, 0x34] = 24" "decimal [0x38, 0x30] = 80" "decimal [] = 0"
  by (simp_all add: decimal_def digit_def is_digit_def)

lemma digits_eval: "list_all is_digit [0x32, 0x34]" "list_all is_digit [0x38, 0x30]"
  by (simp_all add: is_digit_def)

lemma digits_dropWhile_Nil: "list_all is_digit ds \<Longrightarrow> dropWhile is_digit ds = []"
  by (induction ds) simp_all

lemma cursor_report_truncated:
  "cursor_report [] = None"
  "cursor_report [0x1B] = None"
  "list_all is_digit hs \<Longrightarrow> cursor_report (0x1B # 0x5B # hs) = None"
  "list_all is_digit hs \<Longrightarrow> list_all is_digit ws \<Longrightarrow>
     cursor_report (0x1B # 0x5B # hs @ 0x3B # ws) = None"
  by (simp_all add: cursor_report_def digits_dropWhile digits_dropWhile_Nil not_digit_separators
      del: dropWhile_eq_Nil_conv)

text \<open>
  Claim C1, as stated, fails: a reply other than \<open>ESC [ 2 4 ; 8 0 R\<close> need not give
  \<open>Size 0 0\<close>. After one empty poll that ends the flush, the reply \<open>ESC [ 2 4 ; 8 0\<close>,
  in which the \<open>'R'\<close> is missing and nothing follows, gives no size at all:
  \<open>_detect_size\<close> does not return.
\<close>

theorem detect_size_truncated_reply_counterexample:
  "detect_size \<lparr>rx = [None, Some 0x1B, Some 0x5B, Some 0x32, Some 0x34, Some 0x3B,
                       Some 0x38, Some 0x30], tx = [], baud = 0\<rparr>
   = None"
  by (simp add: detect_size_def flush_eq after_flush_def put_string_rx Let_def
      poll_char_eval read_number_def read_number_loop_eval is_digit_def digit_def
      set_cursor_string_def request_cursor_string_def put_char_def)

text \<open>
  Claim C1, amended. Let \<open>reply\<close> be the characters the driver delivers after the flush.
  If \<open>reply\<close> is \<open>ESC [ 2 4 ; 8 0 R\<close>, \<open>_detect_size\<close> returns \<open>Size 80 24\<close>, having
  sent the two strings. In general a reply that starts with ESC, \<open>'['\<close>, digits, \<open>';'\<close>,
  digits, \<open>'R'\<close> gives the size with the two numbers read in decimal as \<open>unsigned\<close>
  values. A reply that departs from the grammar at a character the driver delivers (the
  first is not ESC, the second is not \<open>'['\<close>, the height is ended by something other than
  \<open>';'\<close>, the width by something other than \<open>'R'\<close>) gives \<open>Size 0 0\<close>. Every reply
  that stops before the grammar is decided gives no result, \<open>_detect_size\<close> does not
  return: the empty reply, ESC alone, ESC \<open>'['\<close> and digits, ESC \<open>'['\<close> digits \<open>';'\<close>
  and digits (such as \<open>ESC [ 2 4 ; 8 0\<close> with the \<open>'R'\<close> missing), and in general
  every reply that is not enough to decide the grammar (\<open>report_decided\<close> fails).
\<close>

theorem detect_size_reply:
  assumes "delivered (after_flush (rx d)) = reply"
  shows
    "(reply = [0x1B, 0x5B, 0x32, 0x34, 0x3B, 0x38, 0x30, 0x52] \<longrightarrow>
        (\<exists>d'. detect_size d = Some (Inr (Size 80 24, d'))
              \<and> tx d' = tx d @ set_cursor_string @ request_cursor_string))
     \<and> (\<forall>hs ws rest. list_all is_digit hs \<and> list_all is_digit ws
            \<and> reply = 0x1B # 0x5B # hs @ 0x3B # ws @ 0x52 # rest \<longrightarrow>
          (\<exists>d'. detect_size d = Some (Inr (Size (decimal ws) (decimal hs), d'))))
     \<and> (\<forall>c rest. c \<noteq> 0x1B \<and> reply = c # rest \<longrightarrow>
          (\<exists>d'. detect_size d = Some (Inr (Size 0 0, d'))))
     \<and> (\<forall>c rest. c \<noteq> 0x5B \<and> reply = 0x1B # c # rest \<longrightarrow>
          (\<exists>d'. detect_size d = Some (Inr (Size 0 0, d'))))
     \<and> (\<forall>hs c rest. list_all is_digit hs \<and> \<not> is_digit c \<and> c \<noteq> 0x3B
            \<and> reply = 0x1B # 0x5B # hs @ c # rest \<longrightarrow>
          (\<exists>d'. detect_size d = Some (Inr (Size 0 0, d'))))
     \<and> (\<forall>hs ws c rest. list_all is_digit hs \<and> list_all is_digit ws \<and> \<not> is_digit c \<and> c \<noteq> 0x52
            \<and> reply = 0x1B # 0x5B # hs @ 0x3B # ws @ c # rest \<longrightarrow>
          (\<exists>d'. detect_size d = Some (Inr (Size 0 0, d'))))
     \<and> (reply = [0x1B, 0x5B, 0x32, 0x34, 0x3B, 0x38, 0x30] \<longrightarrow> detect_size d = None)
     \<and> (reply = [] \<or> reply = [0x1B]
          \<or> (\<exists>hs. list_all is_digit hs \<and> reply = 0x1B # 0x5B # hs)
          \<or> (\<exists>hs ws. list_all is_digit hs \<and> list_all is_digit ws
                \<and> reply = 0x1B # 0x5B # hs @ 0x3B # ws) \<longrightarrow>
          detect_size d = None)
     \<and> (\<not> report_decided reply \<longrightarrow> detect_size d = None)"
proof (intro conjI allI impI)
  assume r: "reply = [0x1B, 0x5B, 0x32, 0x34, 0x3B, 0x38, 0x30, 0x52]"
  have "cursor_report (0x1B # 0x5B # [0x32, 0x34] @ 0x3B # [0x38, 0x30] @ 0x52 # []) =
          Some (Size (decimal [0x38, 0x30]) (decimal [0x32, 0x34]))"
    by (rule cursor_report_match) (rule digits_eval)+
  with r assms have "cursor_report (delivered (after_flush (rx d))) = Some (Size 80 24)"
    by (simp add: decimal_eval)
  from detect_size_Some [OF this]
  show "\<exists>d'. detect_size d = Some (Inr (Size 80 24, d'))
          \<and> tx d' = tx d @ set_cursor_string @ request_cursor_string" by blast
next
  fix hs ws rest
  assume "list_all is_digit hs \<and> list_all is_digit ws
            \<and> reply = 0x1B # 0x5B # hs @ 0x3B # ws @ 0x52 # rest"
  with assms have "cursor_report (delivered (after_flush (rx d))) = Some (Size (decimal ws) (decimal hs))"
    by (simp add: cursor_report_match)
  from detect_size_Some [OF this]
  show "\<exists>d'. detect_size d = Some (Inr (Size (decimal ws) (decimal hs), d'))" by blast
next
  fix c rest
  assume "c \<noteq> 0x1B \<and> reply = c # rest"
  with assms have "cursor_report (delivered (after_flush (rx d))) = Some (Size 0 0)"
    by (simp add: cursor_report_not_esc)
  from detect_size_Some [OF this]
  show "\<exists>d'. detect_size d = Some (Inr (Size 0 0, d'))" by blast
next
  fix c rest
  assume "c \<noteq> 0x5B \<and> reply = 0x1B # c # rest"
  with assms have "cursor_report (delivered (after_flush (rx d))) = Some (Size 0 0)"
    by (simp add: cursor_report_not_bracket)
  from detect_size_Some [OF this]
  show "\<exists>d'. detect_size d = Some (Inr (Size 0 0, d'))" by blast
next
  fix hs c rest
  assume "list_all is_digit hs \<and> \<not> is_digit c \<and> c \<noteq> 0x3B
            \<and> reply = 0x1B # 0x5B # hs @ c # rest"
  with assms have "cursor_report (delivered (after_flush (rx d))) = Some (Size 0 0)"
    by (simp add: cursor_report_not_semicolon)
  from detect_size_Some [OF this]
  show "\<exists>d'. detect_size d = Some (Inr (Size 0 0, d'))" by blast
next
  fix hs ws c rest
  assume "list_all is_digit hs \<and> list_all is_digit ws \<and> \<not> is_digit c \<and> c \<noteq> 0x52
            \<and> reply = 0x1B # 0x5B # hs @ 0x3B # ws @ c # rest"
  with assms have "cursor_report (delivered (after_flush (rx d))) = Some (Size 0 0)"
    by (simp add: cursor_report_not_R)
  from detect_size_Some [OF this]
  show "\<exists>d'. detect_size d = Some (Inr (Size 0 0, d'))" by blast
next
  assume "reply = [0x1B, 0x5B, 0x32, 0x34, 0x3B, 0x38, 0x30]"
  with assms have "cursor_report (delivered (after_flush (rx d))) = None"
    by (simp add: cursor_report_def is_digit_def)
  then show "detect_size d = None" by (rule detect_size_None)
next
  assume "reply = [] \<or> reply = [0x1B]
          \<or> (\<exists>hs. list_all is_digit hs \<and> reply = 0x1B # 0x5B # hs)
          \<or> (\<exists>hs ws. list_all is_digit hs \<and> list_all is_digit ws
                \<and> reply = 0x1B # 0x5B # hs @ 0x3B # ws)"
  then have "cursor_report reply = None"
  proof (elim disjE exE conjE)
    assume "reply = []"
    then show ?thesis by (simp add: cursor_report_truncated(1))
  next
    assume "reply = [0x1B]"
    then show ?thesis by (simp add: cursor_report_truncated(2))
  next
    fix hs
    assume "list_all is_digit hs" "reply = 0x1B # 0x5B # hs"
    then show ?thesis by (simp add: cursor_report_truncated(3))
  next
    fix hs ws
    assume "list_all is_digit hs" "list_all is_digit ws" "reply = 0x1B # 0x5B # hs @ 0x3B # ws"
    then show ?thesis by (simp add: cursor_report_truncated(4))
  qed
  with assms have "cursor_report (delivered (after_flush (rx d))) = None" by simp
  then show "detect_size d = None" by (rule detect_size_None)
next
  assume "\<not> report_decided reply"
  with assms have "cursor_report (delivered (after_flush (rx d))) = None"
    by (simp add: report_decided_iff)
  then show "detect_size d = None" by (rule detect_size_None)
qed

theorem detect_size_reply_witness:
  "delivered (after_flush (rx \<lparr>rx = [Some 0x78, None, Some 0x1B, None, Some 0x5B, Some 0x32, Some 0x34,
                                    Some 0x3B, Some 0x38, Some 0x30, Some 0x52],
                              tx = [], baud = 0\<rparr>))
     = [0x1B, 0x5B, 0x32, 0x34, 0x3B, 0x38, 0x30, 0x52]
   \<and> (\<exists>d'. detect_size \<lparr>rx = [Some 0x78, None, Some 0x1B, None, Some 0x5B, Some 0x32, Some 0x34,
                                Some 0x3B, Some 0x38, Some 0x30, Some 0x52],
                          tx = [], baud = 0\<rparr> = Some (Inr (Size 80 24, d'))
          \<and> tx d' = set_cursor_string @ request_cursor_string)
   \<and> delivered (after_flush (rx \<lparr>rx = [None, Some 0x1B, Some 0x5B, Some 0x32, Some 0x34, Some 0x41],
                                tx = [], baud = 0\<rparr>))
     = [0x1B, 0x5B, 0x32, 0x34, 0x41]
   \<and> (\<exists>d'. detect_size \<lparr>rx = [None, Some 0x1B, Some 0x5B, Some 0x32, Some 0x34, Some 0x41],
                          tx = [], baud = 0\<rparr> = Some (Inr (Size 0 0, d')))
   \<and> delivered (after_flush (rx \<lparr>rx = [None, Some 0x1B, None, Some 0x5B], tx = [], baud = 0\<rparr>))
     = [0x1B, 0x5B]
   \<and> detect_size \<lparr>rx = [None, Some 0x1B, None, Some 0x5B], tx = [], baud = 0\<rparr> = None
   \<and> delivered (after_flush (rx \<lparr>rx = [None, Some 0x1B, Some 0x5B, Some 0x32, Some 0x34,
                                    Some 0x3B, Some 0x38], tx = [], baud = 0\<rparr>))
     = [0x1B, 0x5B, 0x32, 0x34, 0x3B, 0x38]
   \<and> \<not> report_decided [0x1B, 0x5B, 0x32, 0x34, 0x3B, 0x38]
   \<and> detect_size \<lparr>rx = [None, Some 0x1B, Some 0x5B, Some 0x32, Some 0x34,
                          Some 0x3B, Some 0x38], tx = [], baud = 0\<rparr> = None"
proof -
  let ?d1 = "\<lparr>rx = [Some 0x78, None, Some 0x1B, None, Some 0x5B, Some 0x32, Some 0x34,
                   Some 0x3B, Some 0x38, Some 0x30, Some 0x52], tx = [], baud = 0\<rparr>"
  let ?d2 = "\<lparr>rx = [None, Some 0x1B, Some 0x5B, Some 0x32, Some 0x34, Some 0x41],
              tx = [], baud = 0\<rparr>"
  have r1: "delivered (after_flush (rx ?d1)) = [0x1B, 0x5B, 0x32, 0x34, 0x3B, 0x38, 0x30, 0x52]"
    by (simp add: after_flush_def)
  have r2: "delivered (after_flush (rx ?d2)) = [0x1B, 0x5B, 0x32, 0x34, 0x41]"
    by (simp add: after_flush_def)
  from detect_size_reply [OF r1]
  have a: "\<exists>d'. detect_size ?d1 = Some (Inr (Size 80 24, d'))
              \<and> tx d' = tx ?d1 @ set_cursor_string @ request_cursor_string"
    by blast
  then have a': "\<exists>d'. detect_size ?d1 = Some (Inr (Size 80 24, d'))
              \<and> tx d' = set_cursor_string @ request_cursor_string"
    by simp
  have s: "list_all is_digit [0x32, 0x34] \<and> \<not> is_digit 0x41 \<and> (0x41 :: 8 word) \<noteq> 0x3B
           \<and> [0x1B, 0x5B, 0x32, 0x34, 0x41] = 0x1B # 0x5B # [0x32, 0x34] @ 0x41 # []"
    by (simp add: is_digit_def)
  from detect_size_reply [OF r2] s
  have b: "\<exists>d'. detect_size ?d2 = Some (Inr (Size 0 0, d'))"
    by blast
  let ?d3 = "\<lparr>rx = [None, Some 0x1B, None, Some 0x5B], tx = [], baud = 0\<rparr>"
  let ?d4 = "\<lparr>rx = [None, Some 0x1B, Some 0x5B, Some 0x32, Some 0x34, Some 0x3B, Some 0x38],
              tx = [], baud = 0\<rparr>"
  have r3: "delivered (after_flush (rx ?d3)) = [0x1B, 0x5B]"
    by (simp add: after_flush_def)
  have t: "list_all is_digit [] \<and> [0x1B, 0x5B] = 0x1B # 0x5B # ([] :: 8 word list)"
    by simp
  then have t': "\<exists>hs. list_all is_digit hs \<and> [0x1B, 0x5B] = 0x1B # 0x5B # hs" ..
  from detect_size_reply [OF r3] t'
  have c: "detect_size ?d3 = None" by blast
  have r4: "delivered (after_flush (rx ?d4)) = [0x1B, 0x5B, 0x32, 0x34, 0x3B, 0x38]"
    by (simp add: after_flush_def)
  have n: "\<not> report_decided [0x1B, 0x5B, 0x32, 0x34, 0x3B, 0x38]"
    by (simp add: report_decided_iff cursor_report_def is_digit_def)
  from detect_size_reply [OF r4] n
  have e: "detect_size ?d4 = None" by blast
  from r1 a' r2 b r3 c r4 n e show ?thesis by (intro conjI)
qed

text \<open>
  Claim C10. \<open>_read_number\<close> accepts an empty run of digits: if the first character
  polled is not a digit, it returns that character with the result 0. So a cursor report
  with an empty height or width matches the grammar, and the empty field is 0: the reply
  \<open>ESC [ ; 8 0 R\<close> gives \<open>Size 80 0\<close>, which is not \<open>Size 0 0\<close>.
\<close>

theorem read_number_empty_run:
  "(\<forall>c d'. poll_char d = Some (Inr (c, d')) \<and> \<not> is_digit c \<longrightarrow>
       read_number d = Some (Inr (c, 0, d')))
   \<and> (\<forall>ws rest. list_all is_digit ws
          \<and> delivered (after_flush (rx d)) = 0x1B # 0x5B # 0x3B # ws @ 0x52 # rest \<longrightarrow>
        (\<exists>d'. detect_size d = Some (Inr (Size (decimal ws) 0, d'))))
   \<and> (\<forall>hs rest. list_all is_digit hs
          \<and> delivered (after_flush (rx d)) = 0x1B # 0x5B # hs @ 0x3B # 0x52 # rest \<longrightarrow>
        (\<exists>d'. detect_size d = Some (Inr (Size 0 (decimal hs), d'))))
   \<and> (delivered (after_flush (rx d)) = [0x1B, 0x5B, 0x3B, 0x38, 0x30, 0x52] \<longrightarrow>
        (\<exists>d'. detect_size d = Some (Inr (Size 80 0, d'))))"
proof (intro conjI allI impI)
  fix c d'
  assume "poll_char d = Some (Inr (c, d')) \<and> \<not> is_digit c"
  then show "read_number d = Some (Inr (c, 0, d'))"
    unfolding read_number_def by (subst read_number_loop.simps) simp
next
  fix ws rest
  assume a: "list_all is_digit ws
          \<and> delivered (after_flush (rx d)) = 0x1B # 0x5B # 0x3B # ws @ 0x52 # rest"
  have "cursor_report (0x1B # 0x5B # [] @ 0x3B # ws @ 0x52 # rest) = Some (Size (decimal ws) (decimal []))"
    using a by (intro cursor_report_match) simp_all
  with a have "cursor_report (delivered (after_flush (rx d))) = Some (Size (decimal ws) 0)"
    by (simp add: decimal_eval)
  from detect_size_Some [OF this]
  show "\<exists>d'. detect_size d = Some (Inr (Size (decimal ws) 0, d'))" by blast
next
  fix hs rest
  assume a: "list_all is_digit hs
          \<and> delivered (after_flush (rx d)) = 0x1B # 0x5B # hs @ 0x3B # 0x52 # rest"
  have "cursor_report (0x1B # 0x5B # hs @ 0x3B # [] @ 0x52 # rest) = Some (Size (decimal []) (decimal hs))"
    using a by (intro cursor_report_match) simp_all
  with a have "cursor_report (delivered (after_flush (rx d))) = Some (Size 0 (decimal hs))"
    by (simp add: decimal_eval)
  from detect_size_Some [OF this]
  show "\<exists>d'. detect_size d = Some (Inr (Size 0 (decimal hs), d'))" by blast
next
  assume a: "delivered (after_flush (rx d)) = [0x1B, 0x5B, 0x3B, 0x38, 0x30, 0x52]"
  have "cursor_report (0x1B # 0x5B # [] @ 0x3B # [0x38, 0x30] @ 0x52 # []) =
          Some (Size (decimal [0x38, 0x30]) (decimal []))"
    by (intro cursor_report_match digits_eval) simp
  with a have "cursor_report (delivered (after_flush (rx d))) = Some (Size 80 0)"
    by (simp add: decimal_eval)
  from detect_size_Some [OF this]
  show "\<exists>d'. detect_size d = Some (Inr (Size 80 0, d'))" by blast
qed

theorem read_number_empty_run_witness:
  "delivered (after_flush (rx \<lparr>rx = [None, Some 0x1B, Some 0x5B, Some 0x3B, Some 0x38, Some 0x30,
                                    Some 0x52], tx = [], baud = 0\<rparr>))
     = [0x1B, 0x5B, 0x3B, 0x38, 0x30, 0x52]
   \<and> (\<exists>d'. detect_size \<lparr>rx = [None, Some 0x1B, Some 0x5B, Some 0x3B, Some 0x38, Some 0x30,
                                Some 0x52], tx = [], baud = 0\<rparr> = Some (Inr (Size 80 0, d')))
   \<and> poll_char \<lparr>rx = [Some 0x3B, Some 0x38], tx = [], baud = 0\<rparr>
       = Some (Inr (0x3B, \<lparr>rx = [Some 0x38], tx = [], baud = 0\<rparr>))
   \<and> \<not> is_digit 0x3B
   \<and> read_number \<lparr>rx = [Some 0x3B, Some 0x38], tx = [], baud = 0\<rparr>
       = Some (Inr (0x3B, 0, \<lparr>rx = [Some 0x38], tx = [], baud = 0\<rparr>))"
proof -
  let ?d = "\<lparr>rx = [None, Some 0x1B, Some 0x5B, Some 0x3B, Some 0x38, Some 0x30, Some 0x52],
             tx = [], baud = 0\<rparr>"
  let ?e = "\<lparr>rx = [Some 0x3B, Some 0x38], tx = [], baud = 0\<rparr>"
  have r: "delivered (after_flush (rx ?d)) = [0x1B, 0x5B, 0x3B, 0x38, 0x30, 0x52]"
    by (simp add: after_flush_def)
  from read_number_empty_run [of ?d] r
  have a: "\<exists>d'. detect_size ?d = Some (Inr (Size 80 0, d'))" by blast
  have p: "poll_char ?e = Some (Inr (0x3B, \<lparr>rx = [Some 0x38], tx = [], baud = 0\<rparr>))"
    by (simp add: poll_char_eval)
  have n: "\<not> is_digit 0x3B" by (simp add: is_digit_def)
  from read_number_empty_run [of ?e] p n
  have b: "read_number ?e = Some (Inr (0x3B, 0, \<lparr>rx = [Some 0x38], tx = [], baud = 0\<rparr>))"
    by blast
  from r a p n b show ?thesis by (intro conjI)
qed

text \<open>
  Claim C8. There is no timeout: if the driver never reports a character, \<open>_poll_char\<close>
  does not return and neither does \<open>_detect_size\<close>; the same holds if no character
  arrives after the flush. \<open>_detect_size\<close> returns exactly when the characters delivered
  after the flush are enough to decide the grammar of the report.
\<close>

theorem detect_size_blocks:
  "((\<forall>x \<in> set (rx d). x = None) \<longrightarrow> poll_char d = None \<and> detect_size d = None)
   \<and> (delivered (after_flush (rx d)) = [] \<longrightarrow> detect_size d = None)
   \<and> (detect_size d \<noteq> None \<longleftrightarrow> report_decided (delivered (after_flush (rx d))))"
proof (intro conjI impI)
  have none: "(\<forall>x \<in> set xs. x = None) \<Longrightarrow> delivered xs = []" for xs
    by (induction xs) auto
  assume a: "\<forall>x \<in> set (rx d). x = None"
  then show "poll_char d = None" by (simp add: none poll_char_delivered_Nil)
  from a have "\<forall>x \<in> set (after_flush (rx d)). x = None"
    unfolding after_flush_def by (meson in_set_dropD set_dropWhileD)
  then have "delivered (after_flush (rx d)) = []" by (rule none)
  then show "detect_size d = None" by (simp add: detect_size_None cursor_report_def)
next
  assume "delivered (after_flush (rx d)) = []"
  then show "detect_size d = None" by (simp add: detect_size_None cursor_report_def)
next
  show "detect_size d \<noteq> None \<longleftrightarrow> report_decided (delivered (after_flush (rx d)))"
  proof (cases "cursor_report (delivered (after_flush (rx d)))")
    case None
    then show ?thesis by (simp add: report_decided_iff detect_size_None)
  next
    case (Some sz)
    with detect_size_Some [OF Some] show ?thesis by (auto simp: report_decided_iff)
  qed
qed

theorem detect_size_blocks_witness:
  "set (rx \<lparr>rx = [None, None, None], tx = [], baud = 0\<rparr>) \<subseteq> {None}
   \<and> poll_char \<lparr>rx = [None, None, None], tx = [], baud = 0\<rparr> = None
   \<and> detect_size \<lparr>rx = [None, None, None], tx = [], baud = 0\<rparr> = None
   \<and> \<not> report_decided (delivered (after_flush (rx
         \<lparr>rx = [None, Some 0x1B, Some 0x5B, Some 0x32, Some 0x34, Some 0x3B, Some 0x38],
          tx = [], baud = 0\<rparr>)))
   \<and> detect_size \<lparr>rx = [None, Some 0x1B, Some 0x5B, Some 0x32, Some 0x34, Some 0x3B, Some 0x38],
                    tx = [], baud = 0\<rparr> = None"
proof -
  let ?d = "\<lparr>rx = [None, None, None], tx = [], baud = 0\<rparr>"
  let ?e = "\<lparr>rx = [None, Some 0x1B, Some 0x5B, Some 0x32, Some 0x34, Some 0x3B, Some 0x38],
             tx = [], baud = 0\<rparr>"
  have h: "\<forall>x \<in> set (rx ?d). x = None" by simp
  from detect_size_blocks [of ?d] h
  have a: "poll_char ?d = None \<and> detect_size ?d = None" by blast
  have n: "\<not> report_decided (delivered (after_flush (rx ?e)))"
    by (simp add: report_decided_iff after_flush_def cursor_report_def is_digit_def)
  from detect_size_blocks [of ?e] n
  have b: "detect_size ?e = None" by blast
  have h': "set (rx ?d) \<subseteq> {None}" by simp
  from h' a n b show ?thesis by (intro conjI) simp_all
qed

end
